theory Spec2Isabelle
  imports Complex_Main "HOL-Library.AList"
begin

section \<open>Python string operations used by the assistant\<close>

text \<open>
  Text is a list of code points below 256 (the type \<open>char\<close>). On this range
  \<open>str.lower\<close> moves the letters A-Z and the Latin-1 capitals (192-222 except the
  multiplication sign 215) up by 32 and leaves every other code point alone, and
  \<open>str.strip()\<close> removes the code points for which \<open>str.isspace\<close> holds.
\<close>

definition lower_char :: "char \<Rightarrow> char" where
  "lower_char c =
     (let n = (of_char c :: nat)
      in if (65 \<le> n \<and> n \<le> 90) \<or> (192 \<le> n \<and> n \<le> 222 \<and> n \<noteq> 215)
         then char_of (n + 32) else c)"

definition lower :: "string \<Rightarrow> string" where
  "lower s = map lower_char s"

definition isspace :: "char \<Rightarrow> bool" where
  "isspace c =
     (let n = (of_char c :: nat)
      in (9 \<le> n \<and> n \<le> 13) \<or> (28 \<le> n \<and> n \<le> 32) \<or> n = 133 \<or> n = 160)"

definition lstrip :: "string \<Rightarrow> string" where
  "lstrip s = dropWhile isspace s"

definition rstrip :: "string \<Rightarrow> string" where
  "rstrip s = rev (dropWhile isspace (rev s))"

definition strip :: "string \<Rightarrow> string" where
  "strip s = rstrip (lstrip s)"

text \<open>\<open>sub in s\<close>: \<open>sub\<close> occurs in \<open>s\<close> as a contiguous run.\<close>

fun contains :: "string \<Rightarrow> string \<Rightarrow> bool" where
  "contains sub [] = (sub = [])"
| "contains sub (c # cs) = (take (length sub) (c # cs) = sub \<or> contains sub cs)"

text \<open>
  \<open>s.replace(old, new)\<close>: every occurrence of \<open>old\<close>, found from the left and not
  overlapping an occurrence already replaced. With an empty \<open>old\<close> Python puts \<open>new\<close>
  before every code point and at the end.
\<close>

fun str_replace :: "string \<Rightarrow> string \<Rightarrow> string \<Rightarrow> string" where
  "str_replace old new [] = (if old = [] then new else [])"
| "str_replace old new (c # cs) =
     (if old = [] then new @ c # str_replace old new cs
      else if take (length old) (c # cs) = old
           then new @ str_replace old new (drop (length old - 1) cs)
           else c # str_replace old new cs)"

section \<open>Wake word and termination phrases\<close>

definition WAKE_WORDS :: "string list" where
  "WAKE_WORDS = [''may'']"

definition TERMINATION_WORDS :: "string list" where
  "TERMINATION_WORDS =
     [''goodbye'', ''bye'', ''see you later'', ''talk to you later'',
      ''stop listening'', ''go to sleep'', ''sleep now'']"

text \<open>
  The loop of \<open>check_wake_word\<close> over the wake words: the first word that occurs in the
  lowered text decides the result.
\<close>

fun wake_scan :: "string list \<Rightarrow> string \<Rightarrow> bool \<times> string option" where
  "wake_scan [] text_lower = (False, None)"
| "wake_scan (word # ws) text_lower =
     (if contains word text_lower
      then (let query = strip (str_replace word [] text_lower)
            in (True, if query \<noteq> [] then Some query else None))
      else wake_scan ws text_lower)"

text \<open>The argument is \<open>None\<close> when the caller passes Python's \<open>None\<close>.\<close>

definition check_wake_word :: "string option \<Rightarrow> bool \<times> string option" where
  "check_wake_word text =
     (case text of
        None \<Rightarrow> (False, None)
      | Some t \<Rightarrow> if t = [] then (False, None) else wake_scan WAKE_WORDS (lower t))"

definition check_termination :: "string option \<Rightarrow> bool" where
  "check_termination text =
     (case text of
        None \<Rightarrow> False
      | Some t \<Rightarrow> if t = [] then False
                  else list_ex (\<lambda>term. contains term (lower t)) TERMINATION_WORDS)"

section \<open>Effects and the outside world\<close>

text \<open>
  A reminder is the dictionary \<open>{"text": ..., "time": ...}\<close> that \<open>set_reminder\<close>
  stores; the time is kept as the ISO string.
\<close>

record reminder =
  reminder_text :: string
  reminder_time :: string

text \<open>
  What a run does to the outside is recorded as a list of events, in the order of the
  calls. \<open>Speak\<close> stands for one call of \<open>speak\<close> (synthesis, playback and the
  notifications \<open>speak\<close> itself sends to the display); \<open>EspSend\<close> for a call of
  \<open>esp32.send\<close> made by the assistant (the constructor of \<open>ESP32Comm\<close> catches its own
  connection failure, so \<open>self.esp32\<close> is always set); \<open>HumeCall\<close> for the HTTP exchange
  with the emotion service; \<open>ModelCall\<close> for one \<open>messages.create\<close>; \<open>SaveConfig\<close> for
  \<open>save_config\<close> with the reminders it writes.
\<close>

datatype event =
    Speak string
  | EspSend string string
  | HumeCall string
  | ModelCall string string
  | SaveConfig "reminder list"

text \<open>
  The result of \<open>detect_emotions_fast\<close>: \<open>top3\<close> is present only on the service path
  and holds the names as the service spelt them.
\<close>

record emotions =
  primary :: string
  score :: real
  top3 :: "(string \<times> real) list option"

text \<open>
  One \<open>messages.create\<close> followed by \<open>message.content[0].text\<close>: the text, an
  \<open>AnthropicError\<close>, or any other exception.
\<close>

datatype model_reply = Reply string | ApiError | OtherError

text \<open>
  Everything a turn reads from outside the program:
  \<^item> \<open>hume_api_key\<close>: the credential, \<open>None\<close> when the variable is not set;
  \<^item> \<open>hume_exchange\<close>: the list of (name, score) the service returns for a text, \<open>None\<close>
    when the exchange or the parsing of the reply fails at any point;
  \<^item> \<open>polarity\<close>: \<open>TextBlob(text).sentiment.polarity\<close>, \<open>None\<close> when it raises;
  \<^item> \<open>anthropic_client\<close>: whether a model client was built;
  \<^item> \<open>messages_create\<close>: the reply of a model identifier to a prompt;
  \<^item> \<open>local_minutes\<close>: the wall clock of \<open>datetime.now(self.timezone)\<close>, in minutes
    counted from a local midnight;
  \<^item> \<open>strftime_date\<close>: the formatted date, \<open>None\<close> when formatting raises;
  \<^item> \<open>random_index\<close>: the draw behind \<open>random.choice\<close>;
  \<^item> \<open>str_title\<close>, \<open>percent0\<close>, \<open>str_number\<close>: Python's \<open>str.title\<close>, the format \<open>.0%\<close>
    and the plain formatting of a number in an f-string;
  \<^item> \<open>fromisoformat\<close>: \<open>datetime.fromisoformat\<close>, giving the instant in microseconds,
    \<open>None\<close> when it raises.
\<close>

record world =
  hume_api_key :: "string option"
  hume_exchange :: "string \<Rightarrow> (string \<times> real) list option"
  polarity :: "string \<Rightarrow> real option"
  anthropic_client :: bool
  messages_create :: "string \<Rightarrow> string \<Rightarrow> model_reply"
  local_minutes :: nat
  strftime_date :: "string option"
  random_index :: nat
  str_title :: "string \<Rightarrow> string"
  percent0 :: "real \<Rightarrow> string"
  str_number :: "real \<Rightarrow> string"
  fromisoformat :: "string \<Rightarrow> int option"

text \<open>\<open>random.choice\<close> on a non-empty list; every list it is given here is a constant.\<close>

definition random_choice :: "nat \<Rightarrow> 'a list \<Rightarrow> 'a" where
  "random_choice r xs = xs ! (r mod length xs)"

section \<open>Emotion detection\<close>

definition fallback_sentiment :: "world \<Rightarrow> string \<Rightarrow> string" where
  "fallback_sentiment w text =
     (case polarity w text of
        None \<Rightarrow> ''neutral''
      | Some p \<Rightarrow> if p > 0.3 then ''positive''
                  else if p < - 0.3 then ''negative''
                  else ''neutral'')"

definition emotion_map :: "(string \<times> string) list" where
  "emotion_map = [(''positive'', ''Joy''), (''negative'', ''Sadness''), (''neutral'', ''Calm'')]"

definition fallback_emotions :: "world \<Rightarrow> string \<Rightarrow> emotions" where
  "fallback_emotions w text =
     (let sentiment = fallback_sentiment w text;
          emotion = (case map_of emotion_map sentiment of Some e \<Rightarrow> e | None \<Rightarrow> ''Calm'')
      in \<lparr>primary = emotion, score = 0.5, top3 = None\<rparr>)"

text \<open>\<open>not self.hume_api_key or self.hume_api_key.startswith("YOUR")\<close>\<close>

definition key_unusable :: "string option \<Rightarrow> bool" where
  "key_unusable k =
     (case k of None \<Rightarrow> True | Some s \<Rightarrow> s = [] \<or> take 4 s = ''YOUR'')"

text \<open>
  The service path sorts the emotions by falling score (Python's sort is stable), keeps
  three, and reads the first: an empty list raises \<open>IndexError\<close> there, which is caught and
  leads to the fallback like every other failure.
\<close>

definition detect_emotions_fast :: "world \<Rightarrow> string \<Rightarrow> emotions \<times> event list" where
  "detect_emotions_fast w text =
     (if key_unusable (hume_api_key w) then (fallback_emotions w text, [])
      else case hume_exchange w text of
             None \<Rightarrow> (fallback_emotions w text, [HumeCall text])
           | Some emos \<Rightarrow>
               (let top_emotions = take 3 (sort_key (\<lambda>e. - snd e) emos)
                in case top_emotions of
                     [] \<Rightarrow> (fallback_emotions w text, [HumeCall text])
                   | top_emotion # _ \<Rightarrow>
                       (let emotion_name = str_title w (fst top_emotion)
                        in (\<lparr>primary = emotion_name, score = snd top_emotion,
                             top3 = Some top_emotions\<rparr>,
                            [HumeCall text, EspSend ''EMOTION'' (''Emotion: '' @ emotion_name)]))))"

section \<open>Canned replies\<close>

definition emotion_responses :: "(string \<times> string list) list" where
  "emotion_responses =
     [(''Joy'', [''I'm glad you're happy!'', ''That's wonderful to hear!'',
                 ''Your positivity is contagious!'']),
      (''Excitement'', [''I love your enthusiasm!'', ''That sounds amazing!'', ''How exciting!'']),
      (''Sadness'', [''I'm here for you.'', ''Take your time, I'm listening.'',
                     ''It's okay to feel this way.'']),
      (''Distress'', [''I understand this is difficult.'', ''You're not alone in this.'',
                      ''Let's work through this together.'']),
      (''Anger'', [''I hear your frustration.'', ''That sounds really challenging.'',
                   ''Your feelings are valid.'']),
      (''Anxiety'', [''Take a deep breath. I'm here.'', ''Let's take this one step at a time.'',
                     ''It's okay to feel worried.'']),
      (''Calm'', [''How can I help you?'', ''I'm listening.'', ''Go ahead, I'm here.'']),
      (''Surprise'', [''Wow, that's unexpected!'', ''Tell me more!'', ''Interesting!'']),
      (''Fear'', [''I'm here with you.'', ''You're safe to share.'', ''Let's talk about it.''])]"

definition calm_responses :: "string list" where
  "calm_responses = [''How can I help you?'', ''I'm listening.'', ''Go ahead, I'm here.'']"

definition get_emotion_aware_response :: "world \<Rightarrow> string \<Rightarrow> emotions option \<Rightarrow> string" where
  "get_emotion_aware_response w query emos =
     (let emotion = (case emos of Some e \<Rightarrow> primary e | None \<Rightarrow> ''Calm'')
      in random_choice (random_index w)
           (case map_of emotion_responses emotion of
              Some rs \<Rightarrow> rs
            | None \<Rightarrow> calm_responses))"

definition casual_responses :: "(string \<times> string list) list" where
  "casual_responses =
     [(''how are you'', [''I'm doing great, thanks for asking!'', ''All good here!'',
                         ''I'm well, how about you?'']),
      (''what's up'', [''Not much, just here to help!'', ''Ready to assist!'',
                       ''All set to chat!'']),
      (''hello'', [''Hello!'', ''Hi there!'', ''Hey!'']),
      (''thanks'', [''You're welcome!'', ''Happy to help!'', ''Anytime!'']),
      (''help'', [''I can help with reminders, answer questions, and chat with you!'',
                  ''Just ask me anything!''])]"

fun casual_scan :: "nat \<Rightarrow> (string \<times> string list) list \<Rightarrow> string \<Rightarrow> string option" where
  "casual_scan r [] query_lower = None"
| "casual_scan r ((key, responses) # rest) query_lower =
     (if contains key query_lower then Some (random_choice r responses)
      else casual_scan r rest query_lower)"

definition get_casual_response :: "world \<Rightarrow> string \<Rightarrow> string option" where
  "get_casual_response w query = casual_scan (random_index w) casual_responses (lower query)"

section \<open>The response pipeline\<close>

definition models_to_try :: "string list" where
  "models_to_try = [''claude-sonnet-4-5-20250929'', ''claude-3-5-sonnet-20241022'']"

fun join :: "string \<Rightarrow> string list \<Rightarrow> string" where
  "join sep [] = []"
| "join sep [x] = x"
| "join sep (x # y # ys) = x @ sep @ join sep (y # ys)"

definition emotion_str :: "world \<Rightarrow> emotions option \<Rightarrow> string" where
  "emotion_str w emos =
     (case emos of
        None \<Rightarrow> []
      | Some e \<Rightarrow>
          if primary e = [] then []
          else [CHR 0x0A, CHR 0x0A] @ ''[EMOTIONAL CONTEXT - User is feeling '' @ primary e
               @ '' (confidence: '' @ percent0 w (score e)
               @ ''). Respond with empathy and acknowledge their emotional state when appropriate.]''
               @ (case top3 e of
                    None \<Rightarrow> []
                  | Some t3 \<Rightarrow>
                      if length t3 > 1
                      then CHR 0x0A # ''Secondary emotions: ''
                           @ join '', '' (map (\<lambda>e. str_title w (fst e) @ '' ('' @ percent0 w (snd e) @ '')'')
                                            (drop 1 t3))
                      else []))"

definition context_str :: "string list \<Rightarrow> string" where
  "context_str ctx =
     (if ctx \<noteq> [] then CHR 0x0A # ''Recent conversation: '' @ join ''; '' (drop (length ctx - 3) ctx)
      else [])"

definition build_prompt :: "world \<Rightarrow> string list \<Rightarrow> string \<Rightarrow> emotions option \<Rightarrow> string" where
  "build_prompt w ctx query emos =
     ''You are May, a friendly and empathetic voice assistant. ''
     @ ''Respond naturally and conversationally (max 100 tokens).'' @ [CHR 0x0A, CHR 0x0A]
     @ ''User's question: '' @ query
     @ emotion_str w emos
     @ context_str ctx @ [CHR 0x0A, CHR 0x0A]
     @ ''Keep your tone warm, engaging, and emotionally intelligent.''"

text \<open>
  The loop over the models: a reply ends it with the stripped text; an \<open>AnthropicError\<close>
  moves on to the next model; any other exception leaves the loop for the outer handler.
  \<open>None\<close> is returned where the source goes on to the canned reply.
\<close>

fun try_models :: "world \<Rightarrow> string \<Rightarrow> string list \<Rightarrow> string option \<times> event list" where
  "try_models w prompt [] = (None, [])"
| "try_models w prompt (model # rest) =
     (case messages_create w model prompt of
        Reply t \<Rightarrow> (Some (strip t), [ModelCall model prompt])
      | ApiError \<Rightarrow>
          (case try_models w prompt rest of (r, ev) \<Rightarrow> (r, ModelCall model prompt # ev))
      | OtherError \<Rightarrow> (None, [ModelCall model prompt]))"

text \<open>
  \<open>strftime('%I:%M %p')\<close> on a wall clock: the hour of the twelve-hour clock and the
  minute, two digits each, and AM or PM (the program never changes the locale). The
  timezone is always a valid one and this format does not raise, so the handler around
  it in \<open>process_with_claude\<close> is never entered.
\<close>

definition two_digits :: "nat \<Rightarrow> string" where
  "two_digits n = [''0123456789'' ! ((n div 10) mod 10), ''0123456789'' ! (n mod 10)]"

definition strftime_IMp :: "nat \<Rightarrow> string" where
  "strftime_IMp minutes =
     (let hour = (minutes div 60) mod 24;
          minute = minutes mod 60;
          hour12 = (if hour mod 12 = 0 then 12 else hour mod 12)
      in two_digits hour12 @ '':'' @ two_digits minute @ '' ''
         @ (if hour < 12 then ''AM'' else ''PM''))"

definition time_keywords :: "string list" where
  "time_keywords = [''time'', ''clock'', ''hour'', ''what time'']"

definition date_keywords :: "string list" where
  "date_keywords = [''date'', ''day is it'', ''today'']"

definition process_with_claude ::
  "world \<Rightarrow> string list \<Rightarrow> string \<Rightarrow> emotions option \<Rightarrow> string \<times> event list" where
  "process_with_claude w ctx query emos =
     (let query_lower = lower query
      in if list_ex (\<lambda>keyword. contains keyword query_lower) time_keywords
         then (let time_str = strftime_IMp (local_minutes w)
               in (''It's '' @ time_str @ ''.'', []))
         else if list_ex (\<lambda>keyword. contains keyword query_lower) date_keywords
         then (case strftime_date w of
                 Some date_str \<Rightarrow> (''Today is '' @ date_str @ ''.'', [])
               | None \<Rightarrow> (''Sorry, I can't access the date right now.'', []))
         else if \<not> anthropic_client w then (get_emotion_aware_response w query emos, [])
         else (case try_models w (build_prompt w ctx query emos) models_to_try of
                 (Some response, ev) \<Rightarrow> (response, ev)
               | (None, ev) \<Rightarrow> (get_emotion_aware_response w query emos, ev)))"

section \<open>The assistant's state\<close>

text \<open>
  The fields of \<open>MayAssistant\<close> that the loops change. \<open>context_list\<close> is \<open>self.context\<close>;
  \<open>battery_thresholds\<close> is the dictionary in its insertion order; instants are in
  microseconds.
\<close>

record assistant =
  conversation_active :: bool
  context_list :: "string list"
  reminders :: "reminder list"
  battery_thresholds :: "(int \<times> bool) list"
  last_battery_check :: int

definition init_assistant :: "int \<Rightarrow> assistant" where
  "init_assistant start =
     \<lparr>conversation_active = False, context_list = [], reminders = [],
      battery_thresholds = [(20, False), (10, False), (5, False)],
      last_battery_check = start\<rparr>"

text \<open>\<open>self.context.append(entry)\<close>, then \<open>pop(0)\<close> when more than five are held.\<close>

definition append_context :: "string list \<Rightarrow> string \<Rightarrow> string list" where
  "append_context ctx entry =
     (let ctx' = ctx @ [entry] in if length ctx' > 5 then tl ctx' else ctx')"

definition exchange :: "string \<Rightarrow> string \<Rightarrow> string" where
  "exchange text response = ''User: '' @ text @ '' | May: '' @ response"

section \<open>Reminders\<close>

text \<open>
  The loop of \<open>check_reminders\<close> runs over a copy of the list and removes each due
  reminder from the list itself (\<open>list.remove\<close> takes the first equal element). A time
  that does not parse raises; the handler of \<open>check_reminders\<close> catches it, and the loop
  ends there with the list as it then is. The first component tells whether the loop
  came to its end.
\<close>

fun due_scan ::
  "(string \<Rightarrow> int option) \<Rightarrow> int \<Rightarrow> reminder list \<Rightarrow> reminder list \<Rightarrow> reminder list
     \<Rightarrow> bool \<times> reminder list \<times> reminder list" where
  "due_scan parse now [] rs due_reminders = (True, rs, due_reminders)"
| "due_scan parse now (r # snapshot) rs due_reminders =
     (case parse (reminder_time r) of
        None \<Rightarrow> (False, rs, due_reminders)
      | Some t \<Rightarrow>
          if now \<ge> t
          then due_scan parse now snapshot (remove1 r rs) (due_reminders @ [r])
          else due_scan parse now snapshot rs due_reminders)"

definition announcement :: "reminder \<Rightarrow> event" where
  "announcement r = Speak (''Reminder: '' @ reminder_text r)"

definition check_reminders :: "world \<Rightarrow> int \<Rightarrow> assistant \<Rightarrow> assistant \<times> event list" where
  "check_reminders w now s =
     (case due_scan (fromisoformat w) now (reminders s) (reminders s) [] of
        (finished, rs, due_reminders) \<Rightarrow>
          (s\<lparr>reminders := rs\<rparr>,
           if finished \<and> due_reminders \<noteq> []
           then SaveConfig rs # map announcement due_reminders
           else []))"

section \<open>Battery\<close>

text \<open>
  \<open>psutil.sensors_battery()\<close>: no battery, a charge in percent, or an exception (caught by
  \<open>check_battery\<close>).
\<close>

datatype battery_reading = NoBattery | Percent real | SensorError

text \<open>
  The loop over the thresholds: the first one, in the dictionary's order, that the charge
  has reached and that has not alerted yet.
\<close>

fun first_unalerted :: "real \<Rightarrow> (int \<times> bool) list \<Rightarrow> int option" where
  "first_unalerted percent [] = None"
| "first_unalerted percent ((threshold, alerted) # rest) =
     (if percent \<le> of_int threshold \<and> \<not> alerted then Some threshold
      else first_unalerted percent rest)"

definition check_battery ::
  "world \<Rightarrow> int \<Rightarrow> battery_reading \<Rightarrow> assistant \<Rightarrow> assistant \<times> string option" where
  "check_battery w now reading s =
     (if now - last_battery_check s < 300000000 then (s, None)
      else let s1 = s\<lparr>last_battery_check := now\<rparr>
           in case reading of
                NoBattery \<Rightarrow> (s1, None)
              | SensorError \<Rightarrow> (s1, None)
              | Percent percent \<Rightarrow>
                  (case first_unalerted percent (battery_thresholds s1) of
                     Some threshold \<Rightarrow>
                       (s1\<lparr>battery_thresholds :=
                             AList.update threshold True (battery_thresholds s1)\<rparr>,
                        Some (''Battery at '' @ str_number w percent @ ''%. Please charge soon.''))
                   | None \<Rightarrow>
                       if percent > 20
                       then (s1\<lparr>battery_thresholds := [(20, False), (10, False), (5, False)]\<rparr>,
                             None)
                       else (s1, None)))"

section \<open>The two loops\<close>

text \<open>
  One element of the input is what one call of \<open>listen\<close> meets: the text heard (stripped
  by \<open>listen\<close>; \<open>None\<close> for silence or a failed transcription) and the outside world at that
  moment. The passive loop reads, before it listens, the clock for the reminders, the
  clock for the battery, and the battery. The notifications that \<open>listen\<close> itself sends
  to the display are part of listening and are not recorded. Every call made by the
  loops handles its own failures, so the \<open>except Exception\<close> branch of the passive loop
  has nothing to catch here; a keyboard interrupt ends the run, and the list of inputs
  is the run up to that point.
\<close>

record tick =
  now_reminders :: int
  now_battery :: int
  battery :: battery_reading
  heard :: "string option"
  outside :: world

text \<open>
  The body of \<open>while self.conversation_active\<close>. When the input ends the loop is waiting in
  \<open>listen\<close>; the third component is the input not yet consumed.
\<close>

fun conversation_loop :: "assistant \<Rightarrow> tick list \<Rightarrow> assistant \<times> event list \<times> tick list" where
  "conversation_loop s [] = (s, [], [])"
| "conversation_loop s (i # rest) =
     (if \<not> conversation_active s then (s, [], i # rest)
      else case heard i of
             None \<Rightarrow>
               (case conversation_loop s rest of
                  (s', ev, r) \<Rightarrow> (s', Speak ''Still here. What else would you like to know?'' # ev, r))
           | Some text \<Rightarrow>
               if check_termination (Some text)
               then (s\<lparr>conversation_active := False\<rparr>,
                     [EspSend ''INPUT'' text,
                      Speak ''Goodbye! Say my name if you need me again.'',
                      EspSend ''READY'' []],
                     rest)
               else (case detect_emotions_fast (outside i) text of
                       (emos, ev1) \<Rightarrow>
                         (case (case get_casual_response (outside i) text of
                                  Some casual_response \<Rightarrow>
                                    if casual_response \<noteq> [] then (casual_response, [])
                                    else process_with_claude (outside i) (context_list s) text (Some emos)
                                | None \<Rightarrow>
                                    process_with_claude (outside i) (context_list s) text (Some emos))
                          of (response, ev2) \<Rightarrow>
                            (case conversation_loop
                                    (s\<lparr>context_list :=
                                         append_context (context_list s) (exchange text response)\<rparr>)
                                    rest
                             of (s', ev, r) \<Rightarrow>
                               (s',
                                EspSend ''INPUT'' text # ev1 @ ev2
                                  @ EspSend ''RESPONSE'' response # Speak response # ev,
                                r)))))"

definition conversation_mode :: "assistant \<Rightarrow> tick list \<Rightarrow> assistant \<times> event list \<times> tick list" where
  "conversation_mode s ticks =
     (case conversation_loop (s\<lparr>conversation_active := True\<rparr>) ticks of
        (s', ev, r) \<Rightarrow> (s', Speak ''I'm listening. What would you like to know?'' # ev, r))"

text \<open>
  The passive loop's answer to a query spoken with the wake word
  (\<open>if query and len(query.strip()) > 0\<close>).
\<close>

definition inline_query :: "world \<Rightarrow> assistant \<Rightarrow> string option \<Rightarrow> assistant \<times> event list" where
  "inline_query w s query =
     (case query of
        None \<Rightarrow> (s, [])
      | Some q \<Rightarrow>
          if q \<noteq> [] \<and> length (strip q) > 0
          then (case detect_emotions_fast w q of
                  (emos, ev1) \<Rightarrow>
                    (case process_with_claude w (context_list s) q (Some emos) of
                       (response, ev2) \<Rightarrow>
                         (s\<lparr>context_list := append_context (context_list s) (exchange q response)\<rparr>,
                          ev1 @ ev2 @ [EspSend ''RESPONSE'' response, Speak response])))
          else (s, []))"

text \<open>The two checks that open every iteration of the passive loop.\<close>

definition periodic_checks :: "tick \<Rightarrow> assistant \<Rightarrow> assistant \<times> event list" where
  "periodic_checks i s =
     (case check_reminders (outside i) (now_reminders i) s of
        (s1, ev1) \<Rightarrow>
          (case check_battery (outside i) (now_battery i) (battery i) s1 of
             (s2, battery_warning) \<Rightarrow>
               (s2, ev1 @ (case battery_warning of
                             Some m \<Rightarrow> if m \<noteq> [] then [Speak m] else []
                           | None \<Rightarrow> []))))"

lemma conversation_loop_rest:
  "conversation_loop s ticks = (s', ev, r) \<Longrightarrow> length r \<le> length ticks"
proof (induction s ticks arbitrary: s' ev r rule: conversation_loop.induct)
  case (1 s)
  then show ?case by simp
next
  case (2 s i rest)
  then show ?case
    by (fastforce split: if_splits option.splits prod.splits)
qed

lemma conversation_mode_rest:
  "conversation_mode s ticks = (s', ev, r) \<Longrightarrow> length r \<le> length ticks"
  by (auto simp: conversation_mode_def split: prod.splits dest: conversation_loop_rest)

function passive_loop :: "assistant \<Rightarrow> tick list \<Rightarrow> assistant \<times> event list" where
  "passive_loop s [] = (s, [])"
| "passive_loop s (i # rest) =
     (case periodic_checks i s of
        (s2, ev0) \<Rightarrow>
          (case heard i of
             None \<Rightarrow> (case passive_loop s2 rest of (s', ev) \<Rightarrow> (s', ev0 @ ev))
           | Some text \<Rightarrow>
               (case check_wake_word (Some text) of
                  (wake_detected, query) \<Rightarrow>
                    if wake_detected
                    then (case inline_query (outside i) s2 query of
                            (s3, ev3) \<Rightarrow>
                              (case conversation_mode s3 rest of
                                 (s4, ev4, rest') \<Rightarrow>
                                   (case passive_loop s4 rest' of
                                      (s', ev) \<Rightarrow>
                                        (s', ev0 @ EspSend ''READY'' [] # ev3 @ ev4 @ ev))))
                    else (case passive_loop s2 rest of (s', ev) \<Rightarrow> (s', ev0 @ ev)))))"
  by pat_completeness auto
termination
  by (relation "measure (\<lambda>(s, ticks). length ticks)")
     (auto dest: conversation_mode_rest [OF sym])

definition passive_listening :: "assistant \<Rightarrow> tick list \<Rightarrow> assistant \<times> event list" where
  "passive_listening s ticks =
     (case passive_loop s ticks of
        (s', ev) \<Rightarrow> (s', Speak ''May is ready. Say my name to start talking.'' # ev))"

section \<open>The side display\<close>

text \<open>
  \<open>ESP32Comm\<close>: the flag \<open>connected\<close> is all of its state that \<open>send\<close> reads. What
  reaches the network is a list of events: a connection attempt, a message written in
  full by \<open>sendall\<close>, or a write that raised. The outcome of a write and of a connection
  attempt are inputs.
\<close>

record ESP32Comm =
  connected :: bool

datatype net_event = ConnectAttempt | Transmitted string | SendFailed string

definition connect :: "bool \<Rightarrow> ESP32Comm \<Rightarrow> ESP32Comm \<times> net_event list" where
  "connect connect_ok c = (c\<lparr>connected := connect_ok\<rparr>, [ConnectAttempt])"

definition send ::
  "ESP32Comm \<Rightarrow> bool \<Rightarrow> bool \<Rightarrow> string \<Rightarrow> string \<Rightarrow> ESP32Comm \<times> net_event list" where
  "send c sendall_ok connect_ok message_type text =
     (if \<not> connected c then (c, [])
      else let message = message_type @ ''|'' @ text @ [CHR 0x0A]
           in if sendall_ok then (c, [Transmitted message])
              else (case connect connect_ok (c\<lparr>connected := False\<rparr>) of
                      (c', ev) \<Rightarrow> (c', SendFailed message # ev)))"

text \<open>A sequence of calls of \<open>send\<close>, each with the outcomes it meets.\<close>

fun send_all ::
  "ESP32Comm \<Rightarrow> (bool \<times> bool \<times> string \<times> string) list \<Rightarrow> ESP32Comm \<times> net_event list" where
  "send_all c [] = (c, [])"
| "send_all c ((sendall_ok, connect_ok, message_type, text) # rest) =
     (case send c sendall_ok connect_ok message_type text of
        (c', ev) \<Rightarrow> (case send_all c' rest of (c'', ev') \<Rightarrow> (c'', ev @ ev')))"

section \<open>Worlds for concrete runs\<close>

text \<open>
  A world with no credential and no model client, and variants of it, on which the
  definitions are evaluated.
\<close>

definition quiet_world :: world where
  "quiet_world =
     \<lparr>hume_api_key = None, hume_exchange = (\<lambda>_. None), polarity = (\<lambda>_. Some 0),
      anthropic_client = False, messages_create = (\<lambda>_ _. ApiError),
      local_minutes = 630, strftime_date = Some ''Monday, January 01'',
      random_index = 0, str_title = (\<lambda>s. s), percent0 = (\<lambda>_. ''50%''),
      str_number = (\<lambda>_. ''15''), fromisoformat = (\<lambda>_. None)\<rparr>"

definition keyed_world :: world where
  "keyed_world = quiet_world\<lparr>hume_api_key := Some ''key''\<rparr>"

definition model_world :: world where
  "model_world =
     quiet_world\<lparr>anthropic_client := True,
                 messages_create := (\<lambda>_ _. Reply ''Hi from the model'')\<rparr>"

definition tick_of :: "world \<Rightarrow> string option \<Rightarrow> tick" where
  "tick_of w h =
     \<lparr>now_reminders = 0, now_battery = 0, battery = NoBattery, heard = h, outside = w\<rparr>"

section \<open>The wake word\<close>



lemma contains_iff: "contains sub s \<longleftrightarrow> (\<exists>a b. s = a @ sub @ b)"
proof (induction s)
  case Nil
  then show ?case by auto
next
  case (Cons c cs)
  show ?case
  proof
    assume "contains sub (c # cs)"
    then consider "take (length sub) (c # cs) = sub" | "contains sub cs" by auto
    then show "\<exists>a b. c # cs = a @ sub @ b"
    proof cases
      case 1
      then have "c # cs = [] @ sub @ drop (length sub) (c # cs)"
        by (metis append_Nil append_take_drop_id)
      then show ?thesis by blast
    next
      case 2
      with Cons.IH obtain a b where "cs = a @ sub @ b" by blast
      then have "c # cs = (c # a) @ sub @ b" by simp
      then show ?thesis by blast
    qed
  next
    assume "\<exists>a b. c # cs = a @ sub @ b"
    then obtain a b where ab: "c # cs = a @ sub @ b" by blast
    show "contains sub (c # cs)"
    proof (cases a)
      case Nil
      with ab have "take (length sub) (c # cs) = sub" by simp
      then show ?thesis by simp
    next
      case (Cons a0 as)
      with ab have "cs = as @ sub @ b" by simp
      with Cons.IH have "contains sub cs" by blast
      then show ?thesis by simp
    qed
  qed
qed




text \<open>
  C10. For missing or empty text \<open>check_wake_word\<close> returns (false, none) and
  \<open>check_termination\<close> returns false. For an utterance that contains the wake word and
  has nothing left once the wake word is removed and the rest trimmed (such as "may"),
  \<open>check_wake_word\<close> returns detected = true with no query; the passive loop then
  processes no inline query: after its periodic checks it notifies the display and
  enters conversation mode with the context as it was.
\<close>

theorem bare_wake_word:
  assumes "lower text = a @ ''may'' @ b"
    and "strip (str_replace ''may'' [] (lower text)) = []"
    and "heard i = Some text"
  shows "check_wake_word None = (False, None)
       \<and> check_wake_word (Some []) = (False, None)
       \<and> check_termination None = False
       \<and> check_termination (Some []) = False
       \<and> check_wake_word (Some text) = (True, None)
       \<and> inline_query w s (snd (check_wake_word (Some text))) = (s, [])
       \<and> passive_loop s (i # rest) =
           (case periodic_checks i s of
              (s2, ev0) \<Rightarrow>
                (case conversation_mode s2 rest of
                   (s4, ev4, rest') \<Rightarrow>
                     (case passive_loop s4 rest' of
                        (s', ev) \<Rightarrow> (s', ev0 @ EspSend ''READY'' [] # ev4 @ ev))))"
proof -
  from assms(1) have c: "contains ''may'' (lower text)" by (auto simp: contains_iff)
  from assms(1) have ne: "text \<noteq> []" by (auto simp: lower_def)
  from c ne assms(2) have w: "check_wake_word (Some text) = (True, None)"
    by (simp add: check_wake_word_def WAKE_WORDS_def)
  have q: "inline_query w s None = (s, [])"
    by (simp add: inline_query_def)
  have p: "passive_loop s (i # rest) =
           (case periodic_checks i s of
              (s2, ev0) \<Rightarrow>
                (case conversation_mode s2 rest of
                   (s4, ev4, rest') \<Rightarrow>
                     (case passive_loop s4 rest' of
                        (s', ev) \<Rightarrow> (s', ev0 @ EspSend ''READY'' [] # ev4 @ ev))))"
    using assms(3) w by (simp add: inline_query_def split: prod.splits)
  have e: "check_wake_word None = (False, None)" "check_wake_word (Some []) = (False, None)"
    "check_termination None = False" "check_termination (Some []) = False"
    by (simp_all add: check_wake_word_def check_termination_def)
  from e w q p show ?thesis by simp
qed

theorem bare_wake_word_witness:
  "lower ''may'' = [] @ ''may'' @ []
   \<and> strip (str_replace ''may'' [] (lower ''may'')) = []
   \<and> heard (tick_of quiet_world (Some ''may'')) = Some ''may''
   \<and> check_wake_word (Some ''may'') = (True, None)
   \<and> passive_loop (init_assistant 0) [tick_of quiet_world (Some ''may'')] =
       ((init_assistant 0)\<lparr>conversation_active := True\<rparr>,
        [EspSend ''READY'' [], Speak ''I'm listening. What would you like to know?''])"
proof -
  have h1: "lower ''may'' = [] @ ''may'' @ []" by code_simp
  have h2: "strip (str_replace ''may'' [] (lower ''may'')) = []" by code_simp
  have h3: "heard (tick_of quiet_world (Some ''may'')) = Some ''may''" by (simp add: tick_of_def quiet_world_def)
  have pc: "periodic_checks (tick_of quiet_world (Some ''may'')) (init_assistant 0) = (init_assistant 0, [])"
    by (simp add: periodic_checks_def check_reminders_def check_battery_def tick_of_def quiet_world_def
        init_assistant_def)
  from bare_wake_word [OF h1 h2 h3, of quiet_world "init_assistant 0" "[]"] pc
  have "check_wake_word (Some ''may'') = (True, None)
     \<and> passive_loop (init_assistant 0) [tick_of quiet_world (Some ''may'')] =
       ((init_assistant 0)\<lparr>conversation_active := True\<rparr>,
        [EspSend ''READY'' [], Speak ''I'm listening. What would you like to know?''])"
    by (simp add: conversation_mode_def)
  with h1 h2 h3 show ?thesis by blast
qed


section \<open>The inline query\<close>

lemma detect_emotions_events:
  "set (snd (detect_emotions_fast w text))
     \<subseteq> {HumeCall text} \<union> range (EspSend ''EMOTION'')"
  by (auto simp: detect_emotions_fast_def Let_def split: option.splits list.splits)

lemma detect_emotions_hume:
  "HumeCall text \<in> set (snd (detect_emotions_fast w text)) \<longleftrightarrow> \<not> key_unusable (hume_api_key w)"
  by (auto simp: detect_emotions_fast_def Let_def split: option.splits list.splits)

lemma wake_time_query:
  "check_wake_word (Some ''may what time is it'') = (True, Some ''what time is it'')"
  by code_simp

lemma time_query_intent:
  "list_ex (\<lambda>keyword. contains keyword (lower ''what time is it'')) time_keywords"
  by code_simp

lemma time_query_nonempty: "length (strip ''what time is it'') > 0"
  by code_simp

text \<open>
  The form "HH:MM AM/PM": two digits, a colon, two digits, a space, and AM or PM.
\<close>

definition is_digit :: "char \<Rightarrow> bool" where
  "is_digit c = (c \<in> set ''0123456789'')"

definition clock_form :: "string \<Rightarrow> bool" where
  "clock_form s =
     (length s = 8 \<and> is_digit (s ! 0) \<and> is_digit (s ! 1) \<and> s ! 2 = CHR '':''
      \<and> is_digit (s ! 3) \<and> is_digit (s ! 4) \<and> s ! 5 = CHR '' ''
      \<and> (s ! 6 = CHR ''A'' \<or> s ! 6 = CHR ''P'') \<and> s ! 7 = CHR ''M'')"

lemma digit_nth: "k < 10 \<Longrightarrow> is_digit (''0123456789'' ! k)"
proof -
  assume "k < 10"
  then have "k < length ''0123456789''" by simp
  then have "''0123456789'' ! k \<in> set ''0123456789''" by (rule nth_mem)
  then show ?thesis by (simp only: is_digit_def)
qed

lemma two_digits_form:
  "\<exists>a b. two_digits n = [a, b] \<and> is_digit a \<and> is_digit b"
proof -
  have "is_digit (''0123456789'' ! ((n div 10) mod 10))" by (rule digit_nth) simp
  moreover have "is_digit (''0123456789'' ! (n mod 10))" by (rule digit_nth) simp
  ultimately show ?thesis by (simp only: two_digits_def) blast
qed

lemma strftime_IMp_form: "clock_form (strftime_IMp minutes)"
proof -
  let ?hour = "(minutes div 60) mod 24"
  let ?hour12 = "if ?hour mod 12 = 0 then 12 else ?hour mod 12"
  obtain a b where h: "two_digits ?hour12 = [a, b]" "is_digit a" "is_digit b"
    using two_digits_form [of ?hour12] by blast
  obtain c d where m: "two_digits (minutes mod 60) = [c, d]" "is_digit c" "is_digit d"
    using two_digits_form [of "minutes mod 60"] by blast
  have "strftime_IMp minutes = [a, b] @ '':'' @ [c, d] @ '' '' @ (if ?hour < 12 then ''AM'' else ''PM'')"
    unfolding strftime_IMp_def Let_def h(1) m(1) ..
  with h(2,3) m(2,3) show ?thesis by (simp add: clock_form_def)
qed

text \<open>
  C2, as amended. For the utterance "may what time is it" the wake word is detected with
  the inline query "what time is it", and \<open>process_with_claude\<close> answers from its time
  keywords with a string of the form "It's HH:MM AM/PM." without the language-model
  service ever being called for that query. The emotion service is not left out: the
  passive loop runs emotion detection on the query before it asks for the reply, and
  that calls the emotion service exactly when a usable credential is configured. The
  reply is sent to the display, spoken, and appended to the context.
\<close>

theorem time_query_inline:
  "check_wake_word (Some ''may what time is it'') = (True, Some ''what time is it'')
   \<and> clock_form (strftime_IMp (local_minutes w))
   \<and> process_with_claude w ctx ''what time is it'' emos =
       (''It's '' @ strftime_IMp (local_minutes w) @ ''.'', [])
   \<and> inline_query w s (Some ''what time is it'') =
       (s\<lparr>context_list :=
            append_context (context_list s)
              (exchange ''what time is it'' (''It's '' @ strftime_IMp (local_minutes w) @ ''.''))\<rparr>,
        snd (detect_emotions_fast w ''what time is it'')
          @ [EspSend ''RESPONSE'' (''It's '' @ strftime_IMp (local_minutes w) @ ''.''),
             Speak (''It's '' @ strftime_IMp (local_minutes w) @ ''.'')])
   \<and> (\<forall>model prompt.
         ModelCall model prompt \<notin> set (snd (inline_query w s (Some ''what time is it''))))
   \<and> (HumeCall ''what time is it'' \<in> set (snd (inline_query w s (Some ''what time is it'')))
        \<longleftrightarrow> \<not> key_unusable (hume_api_key w))"
proof -
  let ?reply = "''It's '' @ strftime_IMp (local_minutes w) @ ''.''"
  have p: "process_with_claude w ctx ''what time is it'' emos = (?reply, [])" for ctx emos
    using time_query_intent
    by (simp add: process_with_claude_def Let_def)
  have i: "inline_query w s (Some ''what time is it'') =
       (s\<lparr>context_list := append_context (context_list s) (exchange ''what time is it'' ?reply)\<rparr>,
        snd (detect_emotions_fast w ''what time is it'')
          @ [EspSend ''RESPONSE'' ?reply, Speak ?reply])"
    using time_query_nonempty by (simp add: inline_query_def p split: prod.splits)
  have m: "ModelCall model prompt \<notin> set (snd (inline_query w s (Some ''what time is it'')))"
    for model prompt
    using detect_emotions_events [of w "''what time is it''"] by (auto simp: i)
  have h: "HumeCall ''what time is it'' \<in> set (snd (inline_query w s (Some ''what time is it'')))
        \<longleftrightarrow> \<not> key_unusable (hume_api_key w)"
    using detect_emotions_hume [of "''what time is it''" w] by (simp add: i)
  from wake_time_query strftime_IMp_form [of "local_minutes w"] p i m h show ?thesis by blast
qed

lemma half_past_ten: "strftime_IMp 630 = ''10:30 AM''"
  by code_simp

theorem time_query_inline_witness:
  "clock_form ''10:30 AM''
   \<and> inline_query quiet_world (init_assistant 0) (Some ''what time is it'') =
     ((init_assistant 0)\<lparr>context_list := [''User: what time is it | May: It's 10:30 AM.'']\<rparr>,
      [EspSend ''RESPONSE'' ''It's 10:30 AM.'', Speak ''It's 10:30 AM.''])"
proof -
  have t: "strftime_IMp (local_minutes quiet_world) = ''10:30 AM''"
    by (simp add: quiet_world_def half_past_ten)
  have d: "snd (detect_emotions_fast quiet_world ''what time is it'') = []"
    by (simp add: detect_emotions_fast_def key_unusable_def quiet_world_def)
  from time_query_inline [of quiet_world "[]" None "init_assistant 0"] show ?thesis
    unfolding t by (simp add: d append_context_def exchange_def init_assistant_def)
qed

text \<open>
  C2 as stated fails: with a credential configured, the emotion service is called for
  the query "what time is it" before the time is answered.
\<close>

theorem time_query_emotion_service_counterexample:
  "snd (check_wake_word (Some ''may what time is it'')) = Some ''what time is it''
   \<and> snd (inline_query keyed_world (init_assistant 0)
            (snd (check_wake_word (Some ''may what time is it'')))) =
       [HumeCall ''what time is it'',
        EspSend ''RESPONSE'' ''It's 10:30 AM.'', Speak ''It's 10:30 AM.'']"
  by code_simp

text \<open>
  C3 at the utterance "may hello" with a model client configured. The casual table has
  an entry that matches "hello", and conversation mode answers the same text from it;
  the passive loop's inline path does not consult the table and calls the language
  model.
\<close>

theorem inline_hello_skips_casual_table:
  "check_wake_word (Some ''may hello'') = (True, Some ''hello'')
   \<and> get_casual_response model_world ''hello'' = Some ''Hello!''
   \<and> snd (inline_query model_world (init_assistant 0) (Some ''hello'')) =
       [ModelCall ''claude-sonnet-4-5-20250929''
          (build_prompt model_world [] ''hello''
             (Some \<lparr>primary = ''Calm'', score = 0.5, top3 = None\<rparr>)),
        EspSend ''RESPONSE'' ''Hi from the model'', Speak ''Hi from the model'']
   \<and> fst (snd (conversation_mode (init_assistant 0) [tick_of model_world (Some ''hello'')])) =
       [Speak ''I'm listening. What would you like to know?'',
        EspSend ''INPUT'' ''hello'', EspSend ''RESPONSE'' ''Hello!'', Speak ''Hello!'']"
  by code_simp

section \<open>The context window\<close>

text \<open>The newest five entries of a history, oldest first.\<close>

definition last_five :: "'a list \<Rightarrow> 'a list" where
  "last_five xs = drop (length xs - 5) xs"

lemma append_context_last_five:
  "append_context (last_five xs) e = last_five (xs @ [e])"
proof (cases "length xs < 5")
  case True
  then show ?thesis by (simp add: append_context_def last_five_def Let_def)
next
  case False
  then have n: "Suc (length xs - 5) = length xs - 4" by arith
  from False have "drop (length xs - 5) xs \<noteq> []" by simp
  then have "tl (drop (length xs - 5) xs @ [e]) = drop (Suc (length xs - 5)) xs @ [e]"
    by (simp add: drop_Suc tl_drop)
  with False n show ?thesis
    by (simp add: append_context_def last_five_def Let_def)
qed

lemma foldl_append_context:
  "foldl append_context (last_five xs) es = last_five (xs @ es)"
proof (induction es arbitrary: xs)
  case Nil
  then show ?case by simp
next
  case (Cons e es)
  have "foldl append_context (last_five xs) (e # es) = foldl append_context (last_five (xs @ [e])) es"
    by (simp add: append_context_last_five)
  also have "\<dots> = last_five ((xs @ [e]) @ es)" by (rule Cons.IH)
  finally show ?case by simp
qed

lemma conversation_loop_context:
  "conversation_loop s ticks = (s', ev, r)
   \<Longrightarrow> \<exists>es. context_list s' = foldl append_context (context_list s) es"
proof (induction s ticks arbitrary: s' ev r rule: conversation_loop.induct)
  case (1 s)
  then have "context_list s' = foldl append_context (context_list s) []" by simp
  then show ?case by blast
next
  case (2 s i rest)
  show ?case
  proof (cases "conversation_active s")
    case False
    with 2(3) have "context_list s' = foldl append_context (context_list s) []" by simp
    then show ?thesis by blast
  next
    case active: True
    show ?thesis
    proof (cases "heard i")
      case None
      obtain s1 ev1 r1 where c: "conversation_loop s rest = (s1, ev1, r1)"
        by (cases "conversation_loop s rest")
      with 2(3) active None have "s' = s1" by simp
      with 2(1) active None c show ?thesis by blast
    next
      case (Some heard_text)
      show ?thesis
      proof (cases "check_termination (Some heard_text)")
        case True
        with 2(3) active Some have "context_list s' = foldl append_context (context_list s) []"
          by auto
        then show ?thesis by blast
      next
        case False
        obtain emos ev1 where d: "detect_emotions_fast (outside i) heard_text = (emos, ev1)"
          by (cases "detect_emotions_fast (outside i) heard_text")
        obtain response ev2 where resp:
          "(case get_casual_response (outside i) heard_text of
              Some casual_response \<Rightarrow>
                if casual_response \<noteq> [] then (casual_response, [])
                else process_with_claude (outside i) (context_list s) heard_text (Some emos)
            | None \<Rightarrow> process_with_claude (outside i) (context_list s) heard_text (Some emos))
           = (response, ev2)"
          by (cases "(case get_casual_response (outside i) heard_text of
              Some casual_response \<Rightarrow>
                if casual_response \<noteq> [] then (casual_response, [])
                else process_with_claude (outside i) (context_list s) heard_text (Some emos)
            | None \<Rightarrow> process_with_claude (outside i) (context_list s) heard_text (Some emos))")
        let ?s1 = "s\<lparr>context_list := append_context (context_list s) (exchange heard_text response)\<rparr>"
        obtain s2 ev3 r3 where c: "conversation_loop ?s1 rest = (s2, ev3, r3)"
          by (cases "conversation_loop ?s1 rest")
        from 2(3) active Some False d resp c have "s' = s2" by simp
        moreover from 2(2) active Some False d resp c
        obtain es where "context_list s2 = foldl append_context (context_list ?s1) es"
          by (metis (no_types, lifting))
        ultimately have "context_list s' =
                     foldl append_context (context_list s) (exchange heard_text response # es)"
          by simp
        then show ?thesis by blast
      qed
    qed
  qed
qed

lemma conversation_mode_context:
  "conversation_mode s ticks = (s', ev, r)
   \<Longrightarrow> \<exists>es. context_list s' = foldl append_context (context_list s) es"
  using conversation_loop_context [of "s\<lparr>conversation_active := True\<rparr>" ticks]
  by (auto simp: conversation_mode_def split: prod.splits)

lemma inline_query_context:
  "inline_query w s query = (s', ev)
   \<Longrightarrow> \<exists>es. context_list s' = foldl append_context (context_list s) es"
proof -
  assume a: "inline_query w s query = (s', ev)"
  then consider "s' = s"
    | e where "context_list s' = append_context (context_list s) e"
    by (auto simp: inline_query_def split: option.splits if_splits prod.splits)
  then show ?thesis
  proof cases
    case 1
    then have "context_list s' = foldl append_context (context_list s) []" by simp
    then show ?thesis by blast
  next
    case 2
    then have "context_list s' = foldl append_context (context_list s) [e]" by simp
    then show ?thesis by blast
  qed
qed

lemma periodic_checks_context:
  "periodic_checks i s = (s', ev) \<Longrightarrow> context_list s' = context_list s"
  by (auto simp: periodic_checks_def check_reminders_def check_battery_def Let_def
      split: prod.splits if_splits battery_reading.splits option.splits)

lemma passive_loop_context:
  "passive_loop s ticks = (s', ev)
   \<Longrightarrow> \<exists>es. context_list s' = foldl append_context (context_list s) es"
proof (induction s ticks arbitrary: s' ev rule: passive_loop.induct)
  case (1 s)
  then have "context_list s' = foldl append_context (context_list s) []" by simp
  then show ?case by blast
next
  case (2 s i rest)
  obtain s2 ev0 where pc: "periodic_checks i s = (s2, ev0)"
    by (cases "periodic_checks i s")
  then have c2: "context_list s2 = context_list s" by (rule periodic_checks_context)
  show ?case
  proof (cases "heard i")
    case None
    obtain s3 ev3 where p: "passive_loop s2 rest = (s3, ev3)"
      by (cases "passive_loop s2 rest")
    with 2(4) pc None have "s' = s3" by simp
    with 2(1) [OF pc [symmetric] None p] c2 show ?thesis by simp
  next
    case (Some heard_text)
    obtain wake_detected query where
      w: "check_wake_word (Some heard_text) = (wake_detected, query)"
      by (cases "check_wake_word (Some heard_text)")
    show ?thesis
    proof (cases wake_detected)
      case False
      obtain s3 ev3 where p: "passive_loop s2 rest = (s3, ev3)"
        by (cases "passive_loop s2 rest")
      with 2(4) pc Some w False have "s' = s3" by simp
      with 2(3) [OF pc [symmetric] Some w [symmetric] False p] c2 show ?thesis by simp
    next
      case True
      obtain s3 ev3 where q: "inline_query (outside i) s2 query = (s3, ev3)"
        by (cases "inline_query (outside i) s2 query")
      obtain s4 ev4 rest' where m: "conversation_mode s3 rest = (s4, ev4, rest')"
        by (cases "conversation_mode s3 rest")
      obtain s5 ev5 where p: "passive_loop s4 rest' = (s5, ev5)"
        by (cases "passive_loop s4 rest'")
      from 2(4) pc Some w True q m p have "s' = s5" by simp
      moreover from inline_query_context [OF q] c2 obtain es1 where
        "context_list s3 = foldl append_context (context_list s) es1" by auto
      moreover from conversation_mode_context [OF m] obtain es2 where
        "context_list s4 = foldl append_context (context_list s3) es2" by blast
      moreover from 2(2) [OF pc [symmetric] Some w [symmetric] True q [symmetric] m [symmetric] refl p]
      obtain es3 where "context_list s5 = foldl append_context (context_list s4) es3" by blast
      ultimately have "context_list s' = foldl append_context (context_list s) (es1 @ es2 @ es3)"
        by simp
      then show ?thesis by blast
    qed
  qed
qed

text \<open>
  C4. Starting from a context of at most five entries, any number of appends leaves the
  newest five entries of everything held and appended, in their order (so each eviction
  takes the oldest entry), and never more than five. A run of the passive loop, with the
  conversation loop inside it, changes the context only by such appends.
\<close>

theorem context_window_fifo:
  assumes "length ctx \<le> 5"
  shows "append_context ctx e = (if length ctx < 5 then ctx @ [e] else tl ctx @ [e])
       \<and> foldl append_context ctx es = last_five (ctx @ es)
       \<and> length (foldl append_context ctx es) \<le> 5
       \<and> (\<exists>appended.
            context_list (fst (passive_listening (s\<lparr>context_list := ctx\<rparr>) ticks)) =
              foldl append_context ctx appended)
       \<and> length (context_list (fst (passive_listening (s\<lparr>context_list := ctx\<rparr>) ticks))) \<le> 5"
proof -
  from assms have l: "last_five ctx = ctx" by (simp add: last_five_def)
  have f: "foldl append_context ctx xs = last_five (ctx @ xs)" for xs
    using foldl_append_context [of ctx xs] l by simp
  have n: "length (last_five (ctx @ xs)) \<le> 5" for xs by (simp add: last_five_def)
  from assms have a: "append_context ctx e = (if length ctx < 5 then ctx @ [e] else tl ctx @ [e])"
    by (cases ctx) (auto simp: append_context_def Let_def)
  obtain s' ev where p: "passive_loop (s\<lparr>context_list := ctx\<rparr>) ticks = (s', ev)"
    by (cases "passive_loop (s\<lparr>context_list := ctx\<rparr>) ticks")
  from passive_loop_context [OF p] obtain appended where
    "context_list s' = foldl append_context ctx appended" by auto
  with p have c: "context_list (fst (passive_listening (s\<lparr>context_list := ctx\<rparr>) ticks)) =
              foldl append_context ctx appended"
    by (simp add: passive_listening_def)
  then have "length (context_list (fst (passive_listening (s\<lparr>context_list := ctx\<rparr>) ticks))) \<le> 5"
    using f n by simp
  with a f n c show ?thesis by auto
qed

theorem context_window_fifo_witness:
  "length ([] :: string list) \<le> 5
   \<and> foldl append_context [] [''q1'', ''q2'', ''q3'', ''q4'', ''q5'', ''q6'']
       = [''q2'', ''q3'', ''q4'', ''q5'', ''q6'']
   \<and> append_context [''q1'', ''q2'', ''q3'', ''q4'', ''q5''] ''q6''
       = [''q2'', ''q3'', ''q4'', ''q5'', ''q6'']"
proof -
  have h: "length ([] :: string list) \<le> 5" by simp
  have k: "length [''q1'', ''q2'', ''q3'', ''q4'', ''q5''] \<le> 5" by simp
  from context_window_fifo [OF h, of undefined "[''q1'', ''q2'', ''q3'', ''q4'', ''q5'', ''q6'']"]
  have "foldl append_context [] [''q1'', ''q2'', ''q3'', ''q4'', ''q5'', ''q6'']
       = [''q2'', ''q3'', ''q4'', ''q5'', ''q6'']"
    by (simp add: last_five_def)
  moreover from context_window_fifo [OF k, of "''q6''"]
  have "append_context [''q1'', ''q2'', ''q3'', ''q4'', ''q5''] ''q6''
       = [''q2'', ''q3'', ''q4'', ''q5'', ''q6'']"
    by simp
  ultimately show ?thesis by simp
qed

section \<open>The reminder due-check\<close>

text \<open>
  A reminder is due when its time parses and has been reached. Every reminder in the
  list was written by \<open>set_reminder\<close> with \<open>isoformat\<close> (the constructor empties the list
  after the configuration is read), so the times of the list always parse; \<open>times_parse\<close>
  states that.
\<close>

definition due_now :: "world \<Rightarrow> int \<Rightarrow> reminder \<Rightarrow> bool" where
  "due_now w now r =
     (case fromisoformat w (reminder_time r) of Some t \<Rightarrow> now \<ge> t | None \<Rightarrow> False)"

definition times_parse :: "world \<Rightarrow> reminder list \<Rightarrow> bool" where
  "times_parse w rs = list_all (\<lambda>r. fromisoformat w (reminder_time r) \<noteq> None) rs"

lemma due_scan_filter:
  assumes "times_parse w snapshot" and "\<forall>x\<in>set kept. \<not> due_now w now x"
  shows "due_scan (fromisoformat w) now snapshot (kept @ snapshot) acc =
           (True, kept @ filter (\<lambda>r. \<not> due_now w now r) snapshot,
            acc @ filter (due_now w now) snapshot)"
  using assms
proof (induction snapshot arbitrary: kept acc)
  case Nil
  then show ?case by simp
next
  case (Cons r snapshot)
  from Cons.prems(1) obtain t where t: "fromisoformat w (reminder_time r) = Some t"
    and rest: "times_parse w snapshot"
    by (auto simp: times_parse_def)
  show ?case
  proof (cases "now \<ge> t")
    case True
    with t have d: "due_now w now r" by (simp add: due_now_def)
    with Cons.prems(2) have "r \<notin> set kept" by blast
    then have "remove1 r (kept @ r # snapshot) = kept @ snapshot"
      by (simp add: remove1_append)
    with Cons.IH [OF rest Cons.prems(2), of "acc @ [r]"] t True d show ?thesis by simp
  next
    case False
    with t have d: "\<not> due_now w now r" by (simp add: due_now_def)
    with Cons.prems(2) have "\<forall>x\<in>set (kept @ [r]). \<not> due_now w now x" by simp
    from Cons.IH [OF rest this, of acc] t False d show ?thesis by simp
  qed
qed

lemma check_reminders_filter:
  assumes "times_parse w (reminders s)"
  shows "check_reminders w now s =
           (s\<lparr>reminders := filter (\<lambda>r. \<not> due_now w now r) (reminders s)\<rparr>,
            if filter (due_now w now) (reminders s) = [] then []
            else SaveConfig (filter (\<lambda>r. \<not> due_now w now r) (reminders s))
                   # map announcement (filter (due_now w now) (reminders s)))"
  using due_scan_filter [OF assms, of "[]" now "[]"]
  by (simp add: check_reminders_def)

lemma times_parse_filter: "times_parse w rs \<Longrightarrow> times_parse w (filter P rs)"
  by (induction rs) (auto simp: times_parse_def)

lemma count_list_filter: "P r \<Longrightarrow> count_list (filter P rs) r = count_list rs r"
  by (induction rs) auto

text \<open>
  Checks that follow one another, each at its own time, with what they do in sequence;
  and, from the list alone, what such checks are to do: the events of one check, the
  events of a sequence of checks, and the reminders a sequence of checks announces.
\<close>

fun reminder_checks :: "world \<Rightarrow> assistant \<Rightarrow> int list \<Rightarrow> assistant \<times> event list" where
  "reminder_checks w s [] = (s, [])"
| "reminder_checks w s (now # instants) =
     (case check_reminders w now s of
        (s1, ev1) \<Rightarrow>
          (case reminder_checks w s1 instants of (s2, ev2) \<Rightarrow> (s2, ev1 @ ev2)))"

definition due_events :: "world \<Rightarrow> int \<Rightarrow> reminder list \<Rightarrow> event list" where
  "due_events w now rs =
     (if filter (due_now w now) rs = [] then []
      else SaveConfig (filter (\<lambda>x. \<not> due_now w now x) rs)
             # map announcement (filter (due_now w now) rs))"

fun later_events :: "world \<Rightarrow> reminder list \<Rightarrow> int list \<Rightarrow> event list" where
  "later_events w rs [] = []"
| "later_events w rs (now # instants) =
     due_events w now rs @ later_events w (filter (\<lambda>x. \<not> due_now w now x) rs) instants"

fun later_due :: "world \<Rightarrow> reminder list \<Rightarrow> int list \<Rightarrow> reminder list" where
  "later_due w rs [] = []"
| "later_due w rs (now # instants) =
     filter (due_now w now) rs @ later_due w (filter (\<lambda>x. \<not> due_now w now x) rs) instants"

definition spoken :: "event list \<Rightarrow> event list" where
  "spoken ev = filter (\<lambda>e. case e of Speak _ \<Rightarrow> True | _ \<Rightarrow> False) ev"

lemma reminder_checks_events:
  assumes "times_parse w (reminders s)"
  shows "snd (reminder_checks w s instants) = later_events w (reminders s) instants
       \<and> set (reminders (fst (reminder_checks w s instants))) \<subseteq> set (reminders s)"
  using assms
proof (induction instants arbitrary: s)
  case Nil
  then show ?case by simp
next
  case (Cons now instants)
  let ?rest = "filter (\<lambda>x. \<not> due_now w now x) (reminders s)"
  let ?s1 = "s\<lparr>reminders := ?rest\<rparr>"
  have c: "check_reminders w now s = (?s1, due_events w now (reminders s))"
    using check_reminders_filter [OF Cons.prems, of now] by (simp add: due_events_def)
  have "times_parse w (reminders ?s1)"
    using Cons.prems by (simp add: times_parse_filter)
  from Cons.IH [OF this]
  have "snd (reminder_checks w ?s1 instants) = later_events w ?rest instants"
    and "set (reminders (fst (reminder_checks w ?s1 instants))) \<subseteq> set ?rest"
    by simp_all
  with c show ?case by (auto split: prod.splits)
qed

lemma spoken_announcements: "spoken (map announcement rs) = map announcement rs"
  by (induction rs) (simp_all add: spoken_def announcement_def)

lemma spoken_due_events:
  "spoken (due_events w now rs) = map announcement (filter (due_now w now) rs)"
proof (cases "filter (due_now w now) rs = []")
  case True
  then show ?thesis by (simp add: due_events_def spoken_def)
next
  case False
  have "spoken (SaveConfig x # ev) = spoken ev" for x ev by (simp add: spoken_def)
  with False show ?thesis by (simp add: due_events_def spoken_announcements)
qed

lemma spoken_later_events:
  "spoken (later_events w rs instants) = map announcement (later_due w rs instants)"
proof (induction instants arbitrary: rs)
  case Nil
  then show ?case by (simp add: spoken_def)
next
  case (Cons now instants)
  have "spoken (a @ b) = spoken a @ spoken b" for a b by (simp add: spoken_def)
  with Cons show ?case by (simp add: spoken_due_events)
qed

lemma later_due_subset: "set (later_due w rs instants) \<subseteq> set rs"
proof (induction instants arbitrary: rs)
  case Nil
  then show ?case by simp
next
  case (Cons now instants)
  from Cons [of "filter (\<lambda>x. \<not> due_now w now x) rs"] show ?case by auto
qed

text \<open>
  C5. For every reminder in the active set whose time has been reached at the check, one
  run of \<open>check_reminders\<close> removes it from the set, writes the configuration without it,
  and only then announces the due reminders, each entry of the list once and in order.
  The reminder is absent afterwards: any later check, and any sequence of later checks,
  does exactly what the remaining list asks for, announces only reminders of that list,
  and the reminder is not among them nor in the list at the end.
\<close>

theorem reminder_due_check:
  assumes "times_parse w (reminders s)"
    and "r \<in> set (reminders s)"
    and "fromisoformat w (reminder_time r) = Some t"
    and "t \<le> now"
  shows "snd (check_reminders w now s) =
           SaveConfig (reminders (fst (check_reminders w now s)))
             # map announcement (filter (due_now w now) (reminders s))
       \<and> reminders (fst (check_reminders w now s)) =
           filter (\<lambda>x. \<not> due_now w now x) (reminders s)
       \<and> count_list (filter (due_now w now) (reminders s)) r = count_list (reminders s) r
       \<and> 0 < count_list (filter (due_now w now) (reminders s)) r
       \<and> r \<notin> set (reminders (fst (check_reminders w now s)))
       \<and> snd (check_reminders w later (fst (check_reminders w now s))) =
           (if filter (due_now w later) (reminders (fst (check_reminders w now s))) = [] then []
            else SaveConfig (filter (\<lambda>x. \<not> due_now w later x)
                               (reminders (fst (check_reminders w now s))))
                   # map announcement
                       (filter (due_now w later) (reminders (fst (check_reminders w now s)))))
       \<and> r \<notin> set (filter (due_now w later) (reminders (fst (check_reminders w now s))))
       \<and> snd (reminder_checks w (fst (check_reminders w now s)) instants) =
           later_events w (reminders (fst (check_reminders w now s))) instants
       \<and> spoken (snd (reminder_checks w (fst (check_reminders w now s)) instants)) =
           map announcement (later_due w (reminders (fst (check_reminders w now s))) instants)
       \<and> r \<notin> set (later_due w (reminders (fst (check_reminders w now s))) instants)
       \<and> r \<notin> set (reminders (fst (reminder_checks w (fst (check_reminders w now s)) instants)))"
proof -
  let ?due = "filter (due_now w now) (reminders s)"
  let ?rest = "filter (\<lambda>x. \<not> due_now w now x) (reminders s)"
  let ?s' = "fst (check_reminders w now s)"
  from assms(3,4) have d: "due_now w now r" by (simp add: due_now_def)
  with assms(2) have mem: "r \<in> set ?due" by simp
  from assms(2) d have ne: "?due \<noteq> []" by (auto simp: filter_empty_conv)
  have c: "check_reminders w now s = (s\<lparr>reminders := ?rest\<rparr>, SaveConfig ?rest # map announcement ?due)"
    using check_reminders_filter [OF assms(1), of now] ne by simp
  then have r': "reminders ?s' = ?rest" by simp
  have first: "snd (check_reminders w now s) = SaveConfig (reminders ?s') # map announcement ?due"
    using c by simp
  have cnt: "count_list ?due r = count_list (reminders s) r"
    using d by (rule count_list_filter)
  from mem have "count_list ?due r \<noteq> 0" unfolding count_list_0_iff by blast
  then have pos: "0 < count_list ?due r" by blast
  from d r' have gone: "r \<notin> set (reminders ?s')" by simp
  have tp: "times_parse w (reminders ?s')"
    unfolding r' using assms(1) by (rule times_parse_filter)
  have one: "snd (check_reminders w later ?s') =
           (if filter (due_now w later) (reminders ?s') = [] then []
            else SaveConfig (filter (\<lambda>x. \<not> due_now w later x) (reminders ?s'))
                   # map announcement (filter (due_now w later) (reminders ?s')))"
    using check_reminders_filter [OF tp, of later] by simp
  from gone have notdue: "r \<notin> set (filter (due_now w later) (reminders ?s'))" by simp
  from reminder_checks_events [OF tp, of instants]
  have run: "snd (reminder_checks w ?s' instants) = later_events w (reminders ?s') instants"
    and sub: "set (reminders (fst (reminder_checks w ?s' instants))) \<subseteq> set (reminders ?s')"
    by simp_all
  have sp: "spoken (snd (reminder_checks w ?s' instants)) =
              map announcement (later_due w (reminders ?s') instants)"
    unfolding run by (rule spoken_later_events)
  from gone later_due_subset [of w "reminders ?s'" instants]
  have nl: "r \<notin> set (later_due w (reminders ?s') instants)" by blast
  from gone sub have ng: "r \<notin> set (reminders (fst (reminder_checks w ?s' instants)))" by blast
  show ?thesis
    using first r' cnt pos gone one notdue run sp nl ng by (intro conjI)
qed

definition clock_world :: world where
  "clock_world =
     quiet_world\<lparr>fromisoformat :=
       map_of [(''2026-01-01T09:00:00+05:30'', 0), (''2026-01-01T10:00:00+05:30'', 3600000000)]\<rparr>"

definition tea :: reminder where
  "tea = \<lparr>reminder_text = ''tea'', reminder_time = ''2026-01-01T09:00:00+05:30''\<rparr>"

definition call_home :: reminder where
  "call_home = \<lparr>reminder_text = ''call home'', reminder_time = ''2026-01-01T10:00:00+05:30''\<rparr>"

theorem reminder_due_check_witness:
  "times_parse clock_world (reminders ((init_assistant 0)\<lparr>reminders := [tea, call_home]\<rparr>))
   \<and> tea \<in> set (reminders ((init_assistant 0)\<lparr>reminders := [tea, call_home]\<rparr>))
   \<and> fromisoformat clock_world (reminder_time tea) = Some 0
   \<and> (0::int) \<le> 60000000
   \<and> snd (check_reminders clock_world 60000000
             ((init_assistant 0)\<lparr>reminders := [tea, call_home]\<rparr>)) =
       [SaveConfig [call_home], Speak ''Reminder: tea'']
   \<and> reminders (fst (check_reminders clock_world 60000000
                        ((init_assistant 0)\<lparr>reminders := [tea, call_home]\<rparr>))) =
       [call_home]
   \<and> snd (reminder_checks clock_world
             (fst (check_reminders clock_world 60000000
                     ((init_assistant 0)\<lparr>reminders := [tea, call_home]\<rparr>)))
             [120000000, 3600000000, 7200000000]) =
       [SaveConfig [], Speak ''Reminder: call home'']"
proof -
  let ?s = "(init_assistant 0)\<lparr>reminders := [tea, call_home]\<rparr>"
  have h1: "times_parse clock_world (reminders ?s)"
    by (simp add: times_parse_def clock_world_def tea_def call_home_def)
  have h2: "tea \<in> set (reminders ?s)" by simp
  have h3: "fromisoformat clock_world (reminder_time tea) = Some 0"
    by (simp add: clock_world_def tea_def)
  have h4: "(0::int) \<le> 60000000" by simp
  have d1: "due_now clock_world 60000000 tea"
    by (simp add: due_now_def clock_world_def tea_def)
  have d2: "\<not> due_now clock_world 60000000 call_home"
    "\<not> due_now clock_world 120000000 call_home"
    "due_now clock_world 3600000000 call_home"
    by (simp_all add: due_now_def clock_world_def call_home_def)
  have f: "filter (due_now clock_world 60000000) (reminders ?s) = [tea]"
    "filter (\<lambda>x. \<not> due_now clock_world 60000000 x) (reminders ?s) = [call_home]"
    using d1 d2 by simp_all
  have a: "announcement tea = Speak ''Reminder: tea''"
    "announcement call_home = Speak ''Reminder: call home''"
    by (simp_all add: announcement_def tea_def call_home_def)
  have l: "later_events clock_world [call_home] [120000000, 3600000000, 7200000000] =
             [SaveConfig [], Speak ''Reminder: call home'']"
    using d2 by (simp add: due_events_def a)
  from reminder_due_check [OF h1 h2 h3 h4, of 0 "[120000000, 3600000000, 7200000000]"]
  have "snd (check_reminders clock_world 60000000 ?s) = [SaveConfig [call_home], Speak ''Reminder: tea'']
      \<and> reminders (fst (check_reminders clock_world 60000000 ?s)) = [call_home]
      \<and> snd (reminder_checks clock_world (fst (check_reminders clock_world 60000000 ?s))
               [120000000, 3600000000, 7200000000]) =
          [SaveConfig [], Speak ''Reminder: call home'']"
    unfolding f by (simp add: a l del: reminder_checks.simps later_events.simps)
  with h1 h2 h3 h4 show ?thesis by blast
qed

section \<open>Battery alerts\<close>

text \<open>
  What a check observes (nothing when it is throttled, when there is no battery, or when
  the sensor raises), the thresholds whose flag a check turns from unalerted to alerted,
  and the log of a sequence of checks: for each check what it observed, the thresholds it
  newly alerted, and what it returned. A low period is a run of checks none of which
  observes a charge above 20.
\<close>

definition observed_percent :: "int \<Rightarrow> battery_reading \<Rightarrow> assistant \<Rightarrow> real option" where
  "observed_percent now reading s =
     (if now - last_battery_check s < 300000000 then None
      else case reading of Percent p \<Rightarrow> Some p | NoBattery \<Rightarrow> None | SensorError \<Rightarrow> None)"

definition newly_alerted :: "assistant \<Rightarrow> assistant \<Rightarrow> int list" where
  "newly_alerted s s' =
     filter (\<lambda>t. map_of (battery_thresholds s) t = Some False
                 \<and> map_of (battery_thresholds s') t = Some True)
       (map fst (battery_thresholds s))"

fun battery_log ::
  "world \<Rightarrow> assistant \<Rightarrow> (int \<times> battery_reading) list
     \<Rightarrow> (real option \<times> int list \<times> string option) list" where
  "battery_log w s [] = []"
| "battery_log w s ((now, reading) # rest) =
     (case check_battery w now reading s of
        (s', warning) \<Rightarrow>
          (observed_percent now reading s, newly_alerted s s', warning) # battery_log w s' rest)"

definition warned_for :: "int \<Rightarrow> real option \<times> int list \<times> string option \<Rightarrow> bool" where
  "warned_for t entry = (t \<in> set (fst (snd entry)) \<and> snd (snd entry) \<noteq> None)"

definition low_period :: "(real option \<times> int list \<times> string option) list \<Rightarrow> bool" where
  "low_period entries =
     list_all (\<lambda>entry. case fst entry of None \<Rightarrow> True | Some p \<Rightarrow> p \<le> 20) entries"

definition keys_ok :: "assistant \<Rightarrow> bool" where
  "keys_ok s = (map fst (battery_thresholds s) = [20, 10, 5])"

lemma first_unalerted_Some:
  "first_unalerted p al = Some t \<Longrightarrow> (t, False) \<in> set al \<and> p \<le> of_int t"
  by (induction al) (auto split: if_splits)

lemma check_battery_cases:
  assumes "check_battery w now reading s = (s', warning)"
  shows "(battery_thresholds s' = battery_thresholds s \<and> warning = None
            \<and> (\<forall>p. observed_percent now reading s = Some p \<longrightarrow> p \<le> 20))
       \<or> (\<exists>t p. observed_percent now reading s = Some p
              \<and> first_unalerted p (battery_thresholds s) = Some t
              \<and> battery_thresholds s' = AList.update t True (battery_thresholds s)
              \<and> warning \<noteq> None)
       \<or> (\<exists>p. observed_percent now reading s = Some p \<and> p > 20
              \<and> first_unalerted p (battery_thresholds s) = None
              \<and> battery_thresholds s' = [(20, False), (10, False), (5, False)]
              \<and> warning = None)"
proof (cases "now - last_battery_check s < 300000000")
  case True
  with assms show ?thesis by (simp add: check_battery_def observed_percent_def)
next
  case False
  show ?thesis
  proof (cases reading)
    case NoBattery
    with False assms show ?thesis by (auto simp: check_battery_def observed_percent_def)
  next
    case SensorError
    with False assms show ?thesis by (auto simp: check_battery_def observed_percent_def)
  next
    case (Percent p)
    with False have o: "observed_percent now reading s = Some p"
      by (simp add: observed_percent_def)
    show ?thesis
    proof (cases "first_unalerted p (battery_thresholds s)")
      case (Some t)
      with False Percent assms have "battery_thresholds s' = AList.update t True (battery_thresholds s)"
        and "warning \<noteq> None"
        by (auto simp: check_battery_def)
      with o Some show ?thesis by blast
    next
      case None
      show ?thesis
      proof (cases "p > 20")
        case True
        with None False Percent assms
        have "battery_thresholds s' = [(20, False), (10, False), (5, False)]" and "warning = None"
          by (auto simp: check_battery_def)
        with o None True show ?thesis by blast
      next
        case notabove: False
        with None False Percent assms
        have "battery_thresholds s' = battery_thresholds s" and "warning = None"
          by (auto simp: check_battery_def)
        with o notabove show ?thesis by auto
      qed
    qed
  qed
qed

lemma map_of_keys_ok:
  assumes "keys_ok s" and "(t, b) \<in> set (battery_thresholds s)"
  shows "map_of (battery_thresholds s) t = Some b" and "t \<in> {20, 10, 5}"
proof -
  from assms(1) have k: "map fst (battery_thresholds s) = [20, 10, 5]" by (simp add: keys_ok_def)
  then have d: "distinct (map fst (battery_thresholds s))" by simp
  from d assms(2) show "map_of (battery_thresholds s) t = Some b" by (rule map_of_is_SomeI)
  from assms(2) have "fst (t, b) \<in> fst ` set (battery_thresholds s)" by (rule imageI)
  then have "t \<in> set (map fst (battery_thresholds s))" by simp
  then show "t \<in> {20, 10, 5}" unfolding k by simp
qed

lemma newly_alerted_same:
  "battery_thresholds s' = battery_thresholds s \<Longrightarrow> newly_alerted s s' = []"
  by (simp add: newly_alerted_def)

lemma newly_alerted_reset:
  "battery_thresholds s' = [(20, False), (10, False), (5, False)] \<Longrightarrow> newly_alerted s s' = []"
  by (auto simp: newly_alerted_def filter_empty_conv)

lemma newly_alerted_update:
  assumes "keys_ok s" and "first_unalerted p (battery_thresholds s) = Some t"
    and "battery_thresholds s' = AList.update t True (battery_thresholds s)"
  shows "newly_alerted s s' = [t]" and "keys_ok s'"
    and "map_of (battery_thresholds s') = (map_of (battery_thresholds s))(t \<mapsto> True)"
proof -
  from assms(1) have keys: "map fst (battery_thresholds s) = [20, 10, 5]"
    by (simp add: keys_ok_def)
  from first_unalerted_Some [OF assms(2)] have m: "(t, False) \<in> set (battery_thresholds s)"
    by simp
  from map_of_keys_ok [OF assms(1) m]
  have f: "map_of (battery_thresholds s) t = Some False" and k: "t \<in> {20, 10, 5}" by simp_all
  show u: "map_of (battery_thresholds s') = (map_of (battery_thresholds s))(t \<mapsto> True)"
    unfolding assms(3) by (rule update_conv')
  from k have "t \<in> set (map fst (battery_thresholds s))" unfolding keys by simp
  then have "map fst (AList.update t True (battery_thresholds s)) = map fst (battery_thresholds s)"
    by (simp add: update_keys)
  then show "keys_ok s'" unfolding keys_ok_def assms(3) keys by simp
  have P: "(map_of (battery_thresholds s) x = Some False
            \<and> map_of (battery_thresholds s') x = Some True) \<longleftrightarrow> x = t" for x
    unfolding u using f by (cases "x = t") simp_all
  have "newly_alerted s s' = filter (\<lambda>x. x = t) [20, 10, 5]"
    unfolding newly_alerted_def keys P ..
  with k show "newly_alerted s s' = [t]" by auto
qed

lemma check_battery_keys_ok:
  assumes "keys_ok s" and "check_battery w now reading s = (s', warning)"
  shows "keys_ok s'"
  using check_battery_cases [OF assms(2)]
proof (elim disjE exE conjE)
  assume "battery_thresholds s' = battery_thresholds s"
  with assms(1) show ?thesis by (simp add: keys_ok_def)
next
  fix t p
  assume "first_unalerted p (battery_thresholds s) = Some t"
    and "battery_thresholds s' = AList.update t True (battery_thresholds s)"
  with assms(1) show ?thesis by (rule newly_alerted_update(2))
next
  assume "battery_thresholds s' = [(20, False), (10, False), (5, False)]"
  then show ?thesis by (simp add: keys_ok_def)
qed

lemma stays_alerted:
  assumes "keys_ok s" and "map_of (battery_thresholds s) t = Some True"
    and "low_period (battery_log w s checks)"
  shows "filter (warned_for t) (battery_log w s checks) = []"
  using assms
proof (induction checks arbitrary: s)
  case Nil
  then show ?case by simp
next
  case (Cons c checks)
  obtain now reading where c: "c = (now, reading)" by (cases c)
  obtain s' warning where step: "check_battery w now reading s = (s', warning)"
    by (cases "check_battery w now reading s")
  from Cons.prems(3) c step
  have obs: "case observed_percent now reading s of None \<Rightarrow> True | Some p \<Rightarrow> p \<le> 20"
    and low: "low_period (battery_log w s' checks)"
    by (simp_all add: low_period_def)
  have k': "keys_ok s'" using Cons.prems(1) step by (rule check_battery_keys_ok)
  have "t \<notin> set (newly_alerted s s') \<and> map_of (battery_thresholds s') t = Some True"
    using check_battery_cases [OF step]
  proof (elim disjE exE conjE)
    assume "battery_thresholds s' = battery_thresholds s"
    with Cons.prems(2) show ?thesis by (simp add: newly_alerted_same)
  next
    fix t' p
    assume f: "first_unalerted p (battery_thresholds s) = Some t'"
      and u: "battery_thresholds s' = AList.update t' True (battery_thresholds s)"
    from first_unalerted_Some [OF f] have "(t', False) \<in> set (battery_thresholds s)" by simp
    from map_of_keys_ok(1) [OF Cons.prems(1) this] Cons.prems(2) have "t' \<noteq> t" by auto
    with newly_alerted_update(1,3) [OF Cons.prems(1) f u] Cons.prems(2) show ?thesis by simp
  next
    fix p
    assume "observed_percent now reading s = Some p" and "20 < p"
    with obs show ?thesis by simp
  qed
  then have "\<not> warned_for t (observed_percent now reading s, newly_alerted s s', warning)"
    and "map_of (battery_thresholds s') t = Some True"
    by (simp_all add: warned_for_def)
  with Cons.IH [OF k' _ low] c step show ?case by simp
qed

lemma once_per_low_period:
  assumes "keys_ok s" and "low_period (battery_log w s checks)"
  shows "length (filter (warned_for t) (battery_log w s checks)) \<le> 1"
  using assms
proof (induction checks arbitrary: s)
  case Nil
  then show ?case by simp
next
  case (Cons c checks)
  obtain now reading where c: "c = (now, reading)" by (cases c)
  obtain s' warning where step: "check_battery w now reading s = (s', warning)"
    by (cases "check_battery w now reading s")
  from Cons.prems(2) c step
  have obs: "case observed_percent now reading s of None \<Rightarrow> True | Some p \<Rightarrow> p \<le> 20"
    and low: "low_period (battery_log w s' checks)"
    by (simp_all add: low_period_def)
  have k': "keys_ok s'" using Cons.prems(1) step by (rule check_battery_keys_ok)
  have log: "battery_log w s (c # checks) =
               (observed_percent now reading s, newly_alerted s s', warning) # battery_log w s' checks"
    using c step by simp
  show ?case
  proof (cases "t \<in> set (newly_alerted s s')")
    case False
    then have "\<not> warned_for t (observed_percent now reading s, newly_alerted s s', warning)"
      by (simp add: warned_for_def)
    with Cons.IH [OF k' low] log show ?thesis by simp
  next
    case True
    have "map_of (battery_thresholds s') t = Some True"
      using check_battery_cases [OF step]
    proof (elim disjE exE conjE)
      assume "battery_thresholds s' = battery_thresholds s"
      with True show ?thesis by (simp add: newly_alerted_same)
    next
      fix t' p
      assume f: "first_unalerted p (battery_thresholds s) = Some t'"
        and u: "battery_thresholds s' = AList.update t' True (battery_thresholds s)"
      from newly_alerted_update(1,3) [OF Cons.prems(1) f u] True show ?thesis by simp
    next
      assume "battery_thresholds s' = [(20, False), (10, False), (5, False)]"
      with True show ?thesis by (simp add: newly_alerted_reset)
    qed
    from stays_alerted [OF k' this low] log show ?thesis by simp
  qed
qed

lemma reset_above_20:
  assumes "keys_ok s" and "observed_percent now reading s = Some p" and "p > 20"
  shows "battery_thresholds (fst (check_battery w now reading s)) =
           [(20, False), (10, False), (5, False)]"
proof -
  obtain s' warning where step: "check_battery w now reading s = (s', warning)"
    by (cases "check_battery w now reading s")
  have "battery_thresholds s' = [(20, False), (10, False), (5, False)]"
    using check_battery_cases [OF step]
  proof (elim disjE exE conjE)
    assume "\<forall>p. observed_percent now reading s = Some p \<longrightarrow> p \<le> 20"
    with assms(2,3) show ?thesis by auto
  next
    fix t q
    assume o: "observed_percent now reading s = Some q"
      and f: "first_unalerted q (battery_thresholds s) = Some t"
    from first_unalerted_Some [OF f] have m: "(t, False) \<in> set (battery_thresholds s)"
      and le: "q \<le> of_int t" by simp_all
    from map_of_keys_ok(2) [OF assms(1) m] le have "q \<le> 20" by auto
    with o assms(2,3) show ?thesis by simp
  next
    assume "battery_thresholds s' = [(20, False), (10, False), (5, False)]"
    then show ?thesis .
  qed
  with step show ?thesis by simp
qed

lemma one_warning_one_flag:
  assumes "keys_ok s"
  shows "length (newly_alerted s (fst (check_battery w now reading s))) =
           (if snd (check_battery w now reading s) = None then 0 else 1)"
proof -
  obtain s' warning where step: "check_battery w now reading s = (s', warning)"
    by (cases "check_battery w now reading s")
  have "length (newly_alerted s s') = (if warning = None then 0 else 1)"
    using check_battery_cases [OF step]
  proof (elim disjE exE conjE)
    assume "battery_thresholds s' = battery_thresholds s" and "warning = None"
    then show ?thesis by (simp add: newly_alerted_same)
  next
    fix t p
    assume f: "first_unalerted p (battery_thresholds s) = Some t"
      and u: "battery_thresholds s' = AList.update t True (battery_thresholds s)"
      and "warning \<noteq> None"
    with newly_alerted_update(1) [OF assms f u] show ?thesis by simp
  next
    assume "battery_thresholds s' = [(20, False), (10, False), (5, False)]" and "warning = None"
    then show ?thesis by (simp add: newly_alerted_reset)
  qed
  with step show ?thesis by simp
qed

text \<open>
  C6. With the three thresholds 20, 10, 5 as keys: a check that returns a warning turns
  exactly one flag to alerted and a check that returns none turns no flag, so a check
  gives at most one warning; the keys stay as they are; a check that observes a charge
  above 20 resets the three flags to unalerted; and in any run of checks that never
  observes a charge above 20, each threshold gives at most one warning.
\<close>

theorem battery_alerts:
  assumes "keys_ok s"
  shows "length (newly_alerted s (fst (check_battery w now reading s))) =
           (if snd (check_battery w now reading s) = None then 0 else 1)
       \<and> keys_ok (fst (check_battery w now reading s))
       \<and> (\<forall>p. observed_percent now reading s = Some p \<and> p > 20 \<longrightarrow>
              battery_thresholds (fst (check_battery w now reading s)) =
                [(20, False), (10, False), (5, False)])
       \<and> (low_period (battery_log w s checks) \<longrightarrow>
              length (filter (warned_for t) (battery_log w s checks)) \<le> 1)"
proof -
  have "keys_ok (fst (check_battery w now reading s))"
    using assms check_battery_keys_ok [of s w now reading] by (cases "check_battery w now reading s") auto
  with one_warning_one_flag [OF assms] reset_above_20 [OF assms] once_per_low_period [OF assms]
  show ?thesis by blast
qed

definition low_checks :: "(int \<times> battery_reading) list" where
  "low_checks =
     [(300000000, Percent 4), (400000000, Percent 4), (600000000, Percent 4),
      (900000000, Percent 4), (1200000000, Percent 4)]"

lemma low_checks_log:
  "battery_log quiet_world (init_assistant 0) low_checks =
     [(Some 4, [20], Some ''Battery at 15%. Please charge soon.''),
      (None, [], None),
      (Some 4, [10], Some ''Battery at 15%. Please charge soon.''),
      (Some 4, [5], Some ''Battery at 15%. Please charge soon.''),
      (Some 4, [], None)]"
  by (simp add: low_checks_def check_battery_def observed_percent_def newly_alerted_def
      init_assistant_def quiet_world_def)

theorem battery_alerts_witness:
  "keys_ok (init_assistant 0)
   \<and> low_period (battery_log quiet_world (init_assistant 0) low_checks)
   \<and> map (\<lambda>entry. fst (snd entry)) (battery_log quiet_world (init_assistant 0) low_checks) =
       [[20], [], [10], [5], []]
   \<and> length (filter (warned_for 10) (battery_log quiet_world (init_assistant 0) low_checks)) \<le> 1"
proof -
  have k: "keys_ok (init_assistant 0)" by (simp add: keys_ok_def init_assistant_def)
  have l: "low_period (battery_log quiet_world (init_assistant 0) low_checks)"
    by (simp add: low_checks_log low_period_def)
  have m: "map (\<lambda>entry. fst (snd entry)) (battery_log quiet_world (init_assistant 0) low_checks) =
       [[20], [], [10], [5], []]"
    by (simp add: low_checks_log)
  from battery_alerts [OF k, of quiet_world 0 NoBattery low_checks 10] l
  have "length (filter (warned_for 10) (battery_log quiet_world (init_assistant 0) low_checks)) \<le> 1"
    by blast
  with k l m show ?thesis by blast
qed

section \<open>The emotion fallback\<close>

text \<open>
  The service is unavailable for a text when the credential is missing, empty or a
  placeholder, or when the exchange fails or yields no emotion. The polarity is a binary
  floating-point number; comparing it with the literals 0.3 and -0.3 gives the same
  answer as comparing the reals, because each literal is the float nearest to its
  decimal value and no float lies between the two.
\<close>

definition service_unavailable :: "world \<Rightarrow> string \<Rightarrow> bool" where
  "service_unavailable w text =
     (key_unusable (hume_api_key w)
      \<or> (case hume_exchange w text of None \<Rightarrow> True | Some emos \<Rightarrow> emos = []))"

definition polarity_bucket :: "real option \<Rightarrow> string" where
  "polarity_bucket p =
     (case p of
        None \<Rightarrow> ''Calm''
      | Some x \<Rightarrow> if x > 0.3 then ''Joy'' else if x < - 0.3 then ''Sadness'' else ''Calm'')"

lemma fallback_emotions_bucket:
  "fallback_emotions w text =
     \<lparr>primary = polarity_bucket (polarity w text), score = 0.5, top3 = None\<rparr>"
  by (simp add: fallback_emotions_def fallback_sentiment_def emotion_map_def polarity_bucket_def
      split: option.splits)

lemma unavailable_fallback:
  assumes "service_unavailable w text"
  shows "fst (detect_emotions_fast w text) = fallback_emotions w text"
proof (cases "key_unusable (hume_api_key w)")
  case True
  then show ?thesis by (simp add: detect_emotions_fast_def)
next
  case False
  with assms have "hume_exchange w text = None \<or> hume_exchange w text = Some []"
    by (auto simp: service_unavailable_def split: option.splits)
  with False show ?thesis by (auto simp: detect_emotions_fast_def)
qed

text \<open>
  C7. When the emotion service is unavailable, the result of emotion detection depends
  on the lexical polarity of the text alone: Joy above 0.3, Sadness below -0.3, Calm
  otherwise, always with score 0.5; two runs on the same text with the same polarity,
  whatever else differs, give the same result.
\<close>

theorem fallback_emotion_deterministic:
  assumes "service_unavailable w text"
    and "service_unavailable w' text"
    and "polarity w' text = polarity w text"
  shows "fst (detect_emotions_fast w text) =
           \<lparr>primary = polarity_bucket (polarity w text), score = 0.5, top3 = None\<rparr>
       \<and> fst (detect_emotions_fast w' text) = fst (detect_emotions_fast w text)"
  using assms by (simp add: unavailable_fallback fallback_emotions_bucket)

definition failing_world :: world where
  "failing_world =
     quiet_world\<lparr>hume_api_key := Some ''key'', polarity := (\<lambda>_. Some 0.8)\<rparr>"

definition placeholder_world :: world where
  "placeholder_world =
     quiet_world\<lparr>hume_api_key := Some ''YOUR_HUME_KEY'', polarity := (\<lambda>_. Some 0.8)\<rparr>"

theorem fallback_emotion_deterministic_witness:
  "service_unavailable failing_world ''I am so excited today''
   \<and> service_unavailable placeholder_world ''I am so excited today''
   \<and> polarity placeholder_world ''I am so excited today''
       = polarity failing_world ''I am so excited today''
   \<and> fst (detect_emotions_fast failing_world ''I am so excited today'')
       = \<lparr>primary = ''Joy'', score = 0.5, top3 = None\<rparr>
   \<and> fst (detect_emotions_fast placeholder_world ''I am so excited today'')
       = \<lparr>primary = ''Joy'', score = 0.5, top3 = None\<rparr>"
proof -
  have h1: "service_unavailable failing_world ''I am so excited today''"
    by (simp add: service_unavailable_def failing_world_def quiet_world_def)
  have h2: "service_unavailable placeholder_world ''I am so excited today''"
    by (simp add: service_unavailable_def placeholder_world_def quiet_world_def key_unusable_def)
  have h3: "polarity placeholder_world ''I am so excited today''
       = polarity failing_world ''I am so excited today''"
    by (simp add: placeholder_world_def failing_world_def)
  have b: "polarity_bucket (polarity failing_world ''I am so excited today'') = ''Joy''"
    by (simp add: polarity_bucket_def failing_world_def)
  from fallback_emotion_deterministic [OF h1 h2 h3] b
  have "fst (detect_emotions_fast failing_world ''I am so excited today'')
       = \<lparr>primary = ''Joy'', score = 0.5, top3 = None\<rparr>
   \<and> fst (detect_emotions_fast placeholder_world ''I am so excited today'')
       = \<lparr>primary = ''Joy'', score = 0.5, top3 = None\<rparr>"
    by simp
  with h1 h2 h3 show ?thesis by blast
qed

section \<open>Model attempts and the canned reply\<close>

definition api_failed :: "world \<Rightarrow> string \<Rightarrow> string \<Rightarrow> bool" where
  "api_failed w prompt model = (messages_create w model prompt = ApiError)"

definition emotion_bucket :: "emotions option \<Rightarrow> string list" where
  "emotion_bucket emos =
     (case map_of emotion_responses (case emos of Some e \<Rightarrow> primary e | None \<Rightarrow> ''Calm'') of
        Some rs \<Rightarrow> rs
      | None \<Rightarrow> calm_responses)"

definition flaky_world :: world where
  "flaky_world =
     quiet_world\<lparr>anthropic_client := True,
                 messages_create :=
                   (\<lambda>model _. if model = ''claude-sonnet-4-5-20250929'' then OtherError
                               else Reply ''ok'')\<rparr>"

definition second_model_world :: world where
  "second_model_world =
     quiet_world\<lparr>anthropic_client := True,
                 messages_create :=
                   (\<lambda>model _. if model = ''claude-sonnet-4-5-20250929'' then ApiError
                               else Reply '' Here is one. '')\<rparr>"

lemma try_models_attempts:
  "try_models w prompt models =
     (case dropWhile (api_failed w prompt) models of
        [] \<Rightarrow> (None, map (\<lambda>m. ModelCall m prompt) models)
      | m # _ \<Rightarrow>
          ((case messages_create w m prompt of
              Reply t \<Rightarrow> Some (strip t) | ApiError \<Rightarrow> None | OtherError \<Rightarrow> None),
           map (\<lambda>m. ModelCall m prompt) (takeWhile (api_failed w prompt) models @ [m])))"
proof (induction models)
  case Nil
  then show ?case by simp
next
  case (Cons model rest)
  show ?case
  proof (cases "messages_create w model prompt")
    case (Reply t)
    then have "\<not> api_failed w prompt model" by (simp add: api_failed_def)
    with Reply show ?thesis by simp
  next
    case ApiError
    then have "api_failed w prompt model" by (simp add: api_failed_def)
    with ApiError Cons.IH show ?thesis
      by (cases "dropWhile (api_failed w prompt) rest") (simp_all del: dropWhile_eq_Nil_conv)
  next
    case OtherError
    then have "\<not> api_failed w prompt model" by (simp add: api_failed_def)
    with OtherError show ?thesis by simp
  qed
qed

lemma emotion_table_shape:
  "length emotion_responses = 9"
  "distinct (map fst emotion_responses)"
  "list_all (\<lambda>entry. length (snd entry) = 3) emotion_responses"
  "map_of emotion_responses ''Calm'' = Some calm_responses"
  by (simp_all add: emotion_responses_def calm_responses_def)

lemma emotion_bucket_length: "length (emotion_bucket emos) = 3"
proof (cases "map_of emotion_responses (case emos of Some e \<Rightarrow> primary e | None \<Rightarrow> ''Calm'')")
  case None
  then show ?thesis by (simp add: emotion_bucket_def calm_responses_def)
next
  case (Some rs)
  then have "(case emos of Some e \<Rightarrow> primary e | None \<Rightarrow> ''Calm'', rs) \<in> set emotion_responses"
    by (rule map_of_SomeD)
  with emotion_table_shape(3) have "length rs = 3"
    by (auto simp: list_all_iff)
  with Some show ?thesis by (simp add: emotion_bucket_def)
qed

lemma canned_reply_in_bucket:
  "get_emotion_aware_response w query emos \<in> set (emotion_bucket emos)"
proof -
  have "random_index w mod 3 < length (emotion_bucket emos)"
    by (simp add: emotion_bucket_length)
  then have "emotion_bucket emos ! (random_index w mod 3) \<in> set (emotion_bucket emos)"
    by (rule nth_mem)
  moreover have "get_emotion_aware_response w query emos = emotion_bucket emos ! (random_index w mod 3)"
    using emotion_bucket_length [of emos]
    by (simp add: get_emotion_aware_response_def emotion_bucket_def random_choice_def Let_def)
  ultimately show ?thesis by simp
qed

text \<open>
  C8, as amended. With a model client configured and no time or date keyword in the
  query, the models are attempted in the order of the list for as long as the attempts
  fail with an \<open>AnthropicError\<close>. The first attempt that does not fail so ends the
  sequence: its reply, stripped, is returned, or, when it raised any other exception, a
  reply from the per-emotion table. When every attempt fails with an \<open>AnthropicError\<close>
  the reply also comes from the table. The table has nine emotions with three replies
  each, and the Calm replies serve a missing or unknown emotion. Every branch returns a
  reply; none raises.
\<close>

theorem model_attempts_then_canned_reply:
  assumes "anthropic_client w"
    and "\<not> list_ex (\<lambda>keyword. contains keyword (lower query)) time_keywords"
    and "\<not> list_ex (\<lambda>keyword. contains keyword (lower query)) date_keywords"
    and "prompt = build_prompt w ctx query emos"
    and "result = process_with_claude w ctx query emos"
  shows "(case dropWhile (api_failed w prompt) models_to_try of
            [] \<Rightarrow>
              snd result = map (\<lambda>m. ModelCall m prompt) models_to_try
              \<and> fst result \<in> set (emotion_bucket emos)
          | m # _ \<Rightarrow>
              snd result =
                map (\<lambda>m. ModelCall m prompt) (takeWhile (api_failed w prompt) models_to_try @ [m])
              \<and> (case messages_create w m prompt of
                    Reply t \<Rightarrow> fst result = strip t
                  | ApiError \<Rightarrow> fst result \<in> set (emotion_bucket emos)
                  | OtherError \<Rightarrow> fst result \<in> set (emotion_bucket emos)))
       \<and> length emotion_responses = 9
       \<and> length (emotion_bucket emos) = 3
       \<and> emotion_bucket None = calm_responses
       \<and> (\<forall>e. map_of emotion_responses (primary e) = None
              \<longrightarrow> emotion_bucket (Some e) = calm_responses)"
proof -
  have r: "result =
             (case try_models w prompt models_to_try of
                (Some response, ev) \<Rightarrow> (response, ev)
              | (None, ev) \<Rightarrow> (get_emotion_aware_response w query emos, ev))"
    using assms by (simp add: process_with_claude_def Let_def)
  have main: "(case dropWhile (api_failed w prompt) models_to_try of
            [] \<Rightarrow>
              snd result = map (\<lambda>m. ModelCall m prompt) models_to_try
              \<and> fst result \<in> set (emotion_bucket emos)
          | m # _ \<Rightarrow>
              snd result =
                map (\<lambda>m. ModelCall m prompt) (takeWhile (api_failed w prompt) models_to_try @ [m])
              \<and> (case messages_create w m prompt of
                    Reply t \<Rightarrow> fst result = strip t
                  | ApiError \<Rightarrow> fst result \<in> set (emotion_bucket emos)
                  | OtherError \<Rightarrow> fst result \<in> set (emotion_bucket emos)))"
  proof (cases "dropWhile (api_failed w prompt) models_to_try")
    case Nil
    with r try_models_attempts [of w prompt models_to_try]
    have "result = (get_emotion_aware_response w query emos,
                    map (\<lambda>m. ModelCall m prompt) models_to_try)"
      by (simp del: dropWhile_eq_Nil_conv)
    with Nil canned_reply_in_bucket [of w query emos] show ?thesis
      by (simp del: dropWhile_eq_Nil_conv)
  next
    case (Cons m ms)
    show ?thesis
    proof (cases "messages_create w m prompt")
      case (Reply t)
      with Cons r try_models_attempts [of w prompt models_to_try]
      have "result = (strip t, map (\<lambda>m. ModelCall m prompt)
                                 (takeWhile (api_failed w prompt) models_to_try @ [m]))"
        by simp
      with Cons Reply show ?thesis by simp
    next
      case ApiError
      with Cons r try_models_attempts [of w prompt models_to_try]
      have "result = (get_emotion_aware_response w query emos,
                      map (\<lambda>m. ModelCall m prompt)
                        (takeWhile (api_failed w prompt) models_to_try @ [m]))"
        by simp
      with Cons ApiError canned_reply_in_bucket [of w query emos] show ?thesis by simp
    next
      case OtherError
      with Cons r try_models_attempts [of w prompt models_to_try]
      have "result = (get_emotion_aware_response w query emos,
                      map (\<lambda>m. ModelCall m prompt)
                        (takeWhile (api_failed w prompt) models_to_try @ [m]))"
        by simp
      with Cons OtherError canned_reply_in_bucket [of w query emos] show ?thesis by simp
    qed
  qed
  have t: "emotion_bucket None = calm_responses"
    by (simp add: emotion_bucket_def emotion_table_shape(4))
  have d: "map_of emotion_responses (primary e) = None \<longrightarrow> emotion_bucket (Some e) = calm_responses"
    for e
    by (simp add: emotion_bucket_def)
  from main emotion_table_shape(1) emotion_bucket_length [of emos] t d show ?thesis by blast
qed

lemma joke_no_intent:
  "\<not> list_ex (\<lambda>keyword. contains keyword (lower ''tell me a joke'')) time_keywords"
  "\<not> list_ex (\<lambda>keyword. contains keyword (lower ''tell me a joke'')) date_keywords"
  by code_simp+

theorem model_attempts_then_canned_reply_witness:
  "anthropic_client second_model_world
   \<and> \<not> list_ex (\<lambda>keyword. contains keyword (lower ''tell me a joke'')) time_keywords
   \<and> \<not> list_ex (\<lambda>keyword. contains keyword (lower ''tell me a joke'')) date_keywords
   \<and> process_with_claude second_model_world [] ''tell me a joke'' None =
       (''Here is one.'',
        [ModelCall ''claude-sonnet-4-5-20250929''
           (build_prompt second_model_world [] ''tell me a joke'' None),
         ModelCall ''claude-3-5-sonnet-20241022''
           (build_prompt second_model_world [] ''tell me a joke'' None)])"
proof -
  have h1: "anthropic_client second_model_world"
    by (simp add: second_model_world_def)
  have s: "strip '' Here is one. '' = ''Here is one.''" by code_simp
  have d: "dropWhile (api_failed second_model_world p) models_to_try
             = [''claude-3-5-sonnet-20241022'']"
    "takeWhile (api_failed second_model_world p) models_to_try
             = [''claude-sonnet-4-5-20250929'']"
    "messages_create second_model_world ''claude-3-5-sonnet-20241022'' p = Reply '' Here is one. ''"
    for p
    by (simp_all add: api_failed_def second_model_world_def models_to_try_def)
  from model_attempts_then_canned_reply [OF h1 joke_no_intent refl refl, of "[]" None]
  have "process_with_claude second_model_world [] ''tell me a joke'' None =
       (''Here is one.'',
        [ModelCall ''claude-sonnet-4-5-20250929''
           (build_prompt second_model_world [] ''tell me a joke'' None),
         ModelCall ''claude-3-5-sonnet-20241022''
           (build_prompt second_model_world [] ''tell me a joke'' None)])"
    by (simp add: d s prod_eq_iff)
  with h1 joke_no_intent show ?thesis by blast
qed

text \<open>
  C8 as stated fails: when the first model raises an exception that is not an
  \<open>AnthropicError\<close>, the second model is never attempted, though it would have replied,
  and a canned reply is returned.
\<close>

theorem later_model_not_tried_counterexample:
  "messages_create flaky_world ''claude-3-5-sonnet-20241022''
     (build_prompt flaky_world [] ''tell me a joke'' None) = Reply ''ok''
   \<and> process_with_claude flaky_world [] ''tell me a joke'' None =
       (''How can I help you?'',
        [ModelCall ''claude-sonnet-4-5-20250929''
           (build_prompt flaky_world [] ''tell me a joke'' None)])"
  by code_simp

section \<open>Sending to the side display\<close>

definition line :: "string \<Rightarrow> string \<Rightarrow> string" where
  "line message_type payload = message_type @ ''|'' @ payload @ [CHR 0x0A]"

lemma send_all_disconnected: "\<not> connected c \<Longrightarrow> send_all c sends = (c, [])"
proof (induction sends)
  case Nil
  then show ?case by simp
next
  case (Cons a sends)
  obtain sendall_ok connect_ok message_type payload
    where a: "a = (sendall_ok, connect_ok, message_type, payload)"
    by (cases a)
  from Cons.prems have "send c sendall_ok connect_ok message_type payload = (c, [])"
    by (simp add: send_def)
  with Cons a show ?case by simp
qed

text \<open>
  C9, as amended. A send on a connection marked disconnected is a silent no-op: nothing
  is transmitted, no reconnect is attempted, and every later send is a no-op as well. A
  send on a connected display transmits the line. When the write fails, the connection
  is marked disconnected and one reconnect is attempted at once, inside the failing send;
  the sends that follow go out if that reconnect succeeded and are no-ops otherwise. A
  reconnect is attempted in a send exactly when that send's own write fails.
\<close>

theorem display_send:
  "(\<not> connected c \<longrightarrow>
      send c sendall_ok connect_ok message_type payload = (c, [])
      \<and> send_all c sends = (c, []))
   \<and> (connected c \<and> sendall_ok \<longrightarrow>
        send c sendall_ok connect_ok message_type payload =
          (c, [Transmitted (line message_type payload)]))
   \<and> (connected c \<and> \<not> sendall_ok \<longrightarrow>
        send c sendall_ok connect_ok message_type payload =
          (c\<lparr>connected := connect_ok\<rparr>,
           [SendFailed (line message_type payload), ConnectAttempt])
        \<and> send_all c ((sendall_ok, connect_ok, message_type, payload) # next_send # sends) =
            (if connect_ok
             then (fst (send_all (c\<lparr>connected := True\<rparr>) (next_send # sends)),
                   SendFailed (line message_type payload) # ConnectAttempt
                     # snd (send_all (c\<lparr>connected := True\<rparr>) (next_send # sends)))
             else (c\<lparr>connected := False\<rparr>,
                   [SendFailed (line message_type payload), ConnectAttempt])))
   \<and> (ConnectAttempt \<in> set (snd (send c sendall_ok connect_ok message_type payload))
        \<longleftrightarrow> connected c \<and> \<not> sendall_ok)"
proof -
  have a: "\<not> connected c \<Longrightarrow>
      send c sendall_ok connect_ok message_type payload = (c, [])
      \<and> send_all c sends = (c, [])"
    by (simp add: send_def send_all_disconnected)
  have b: "connected c \<Longrightarrow> sendall_ok \<Longrightarrow>
        send c sendall_ok connect_ok message_type payload =
          (c, [Transmitted (line message_type payload)])"
    by (simp add: send_def line_def)
  have f: "connected c \<Longrightarrow> \<not> sendall_ok \<Longrightarrow>
        send c sendall_ok connect_ok message_type payload =
          (c\<lparr>connected := connect_ok\<rparr>,
           [SendFailed (line message_type payload), ConnectAttempt])"
    by (simp add: send_def connect_def line_def)
  have g: "connected c \<Longrightarrow> \<not> sendall_ok \<Longrightarrow>
        send_all c ((sendall_ok, connect_ok, message_type, payload) # next_send # sends) =
            (if connect_ok
             then (fst (send_all (c\<lparr>connected := True\<rparr>) (next_send # sends)),
                   SendFailed (line message_type payload) # ConnectAttempt
                     # snd (send_all (c\<lparr>connected := True\<rparr>) (next_send # sends)))
             else (c\<lparr>connected := False\<rparr>,
                   [SendFailed (line message_type payload), ConnectAttempt]))"
  proof -
    assume h: "connected c" "\<not> sendall_ok"
    show ?thesis
    proof (cases connect_ok)
      case True
      with f [OF h] show ?thesis
        by (simp del: send_all.simps(2) add: send_all.simps(2) [of c] split: prod.splits)
    next
      case False
      have "send_all (c\<lparr>connected := False\<rparr>) (next_send # sends) = (c\<lparr>connected := False\<rparr>, [])"
        by (rule send_all_disconnected) simp
      with False f [OF h] show ?thesis
        by (simp del: send_all.simps(2) add: send_all.simps(2) [of c])
    qed
  qed
  have e: "ConnectAttempt \<in> set (snd (send c sendall_ok connect_ok message_type payload))
        \<longleftrightarrow> connected c \<and> \<not> sendall_ok"
    by (simp add: send_def connect_def Let_def)
  from a b f g e show ?thesis by blast
qed

theorem display_send_witness:
  "connected \<lparr>connected = True\<rparr>
   \<and> send \<lparr>connected = True\<rparr> False False ''SPEAKING'' [] =
       (\<lparr>connected = False\<rparr>, [SendFailed (line ''SPEAKING'' []), ConnectAttempt])
   \<and> send_all \<lparr>connected = True\<rparr>
       [(False, False, ''SPEAKING'', []), (True, True, ''READY'', []),
        (True, True, ''LISTENING'', [])] =
       (\<lparr>connected = False\<rparr>, [SendFailed (line ''SPEAKING'' []), ConnectAttempt])"
  using display_send [of "\<lparr>connected = True\<rparr>" False False "''SPEAKING''" "[]"
      "[(True, True, ''LISTENING'', [])]" "(True, True, ''READY'', [])"]
  by (simp del: send_all.simps)

text \<open>
  C9 as stated fails: after a failed send whose reconnect also failed, the next send
  attempts no reconnect and transmits nothing.
\<close>

theorem no_reconnect_on_next_send_counterexample:
  "fst (send \<lparr>connected = True\<rparr> False False ''RESPONSE'' ''hi'') = \<lparr>connected = False\<rparr>
   \<and> send (fst (send \<lparr>connected = True\<rparr> False False ''RESPONSE'' ''hi''))
        True True ''READY'' [] = (\<lparr>connected = False\<rparr>, [])
   \<and> ConnectAttempt \<notin> set (snd (send (fst (send \<lparr>connected = True\<rparr> False False
                                               ''RESPONSE'' ''hi''))
                                   True True ''READY'' []))"
  by (simp add: send_def connect_def Let_def)

end
